theory Spec2Isabelle
  imports Main "HOL-Library.AList"
begin

section \<open>The HTTPFilterPolicy controller: data model\<close>

text \<open>
  The controller (package \<open>controller\<close>) reads HTTPFilterPolicy, VirtualService and
  Gateway objects from the cluster and writes EnvoyFilter objects and policy statuses.
  An object is modelled by the fields the controller itself reads or writes, and by one
  opaque field (\<open>hfp_Filters\<close>, \<open>vs_Hosts\<close>, \<open>gw_Servers\<close>) that stands for the
  rest of its spec, which only the validators and the translation engine look at.
\<close>

record NamespacedName =
  nn_Namespace :: string
  nn_Name :: string

record TargetRef =
  tr_Group :: string
  tr_Kind :: string
  tr_Name :: string
  tr_Namespace :: "string option"
  tr_SectionName :: "string option"

datatype PolicyConditionReason =
  PolicyReasonAccepted | PolicyReasonInvalid | PolicyReasonTargetNotFound

text \<open>
  The status a policy carries: \<open>st_Message = None\<close> when \<open>SetAccepted\<close> was called
  without a message argument.
\<close>

record PolicyStatus =
  st_Accepted :: bool
  st_Reason :: PolicyConditionReason
  st_Message :: "string option"

record HTTPFilterPolicy =
  hfp_Name :: string
  hfp_Namespace :: string
  hfp_TargetRef :: TargetRef
  hfp_Filters :: "string list"
  hfp_Status :: "PolicyStatus option"

record HTTPRoute =
  hr_Name :: string

record VirtualService =
  vs_Name :: string
  vs_Namespace :: string
  vs_Hosts :: "string list"
  vs_Http :: "HTTPRoute list"
  vs_Gateways :: "string list"

record Gateway =
  gw_Name :: string
  gw_Namespace :: string
  gw_Servers :: "string list"

text \<open>
  An EnvoyFilter: its spec is opaque to the controller, which only compares two specs
  with \<open>proto.Equal\<close>; labels are a Go \<open>map[string]string\<close>, kept as an association
  list read with \<^const>\<open>map_of\<close>.
\<close>

type_synonym EnvoyFilterSpec = "string list"

record EnvoyFilter =
  ef_Name :: string
  ef_Namespace :: string
  ef_Labels :: "(string \<times> string) list"
  ef_ResourceVersion :: string
  ef_Spec :: EnvoyFilterSpec

definition LabelCreatedBy :: string where
  "LabelCreatedBy = ''htnn.mosn.io/created-by''"

subsection \<open>Errors\<close>

text \<open>
  An error of the cluster API is either "not found" (\<open>apierrors.IsNotFound\<close>) or any
  other failure. The controller returns such an error as it is, or wrapped by
  \<open>fmt.Errorf\<close> with a message and, for some calls, the object's NamespacedName.
\<close>

datatype api_error = NotFound | Failure string

fun IsNotFound :: "api_error \<Rightarrow> bool" where
  "IsNotFound NotFound = True"
| "IsNotFound (Failure m) = False"

datatype error =
  ApiError api_error
| Errorf string api_error "NamespacedName option"

subsection \<open>The cluster API client\<close>

text \<open>
  The client is an external collaborator (controller-runtime). It is modelled as a store
  of objects, a table of injected failures (a call listed there fails with that error
  and has no effect), the registered field indexes, and the trace of every call made,
  in order, so that "no read was attempted" and "no write was performed" are statements
  about the trace.
\<close>

datatype api_call =
  ListHTTPFilterPolicy
| ListHTTPFilterPolicyByField string string
| GetVirtualService NamespacedName
| GetGateway NamespacedName
| ListEnvoyFilterByLabel string string
| GetEnvoyFilter NamespacedName
| DeleteEnvoyFilter NamespacedName
| CreateEnvoyFilter EnvoyFilter
| UpdateEnvoyFilter EnvoyFilter
| UpdateStatus HTTPFilterPolicy

fun is_write :: "api_call \<Rightarrow> bool" where
  "is_write (DeleteEnvoyFilter k) = True"
| "is_write (CreateEnvoyFilter ef) = True"
| "is_write (UpdateEnvoyFilter ef) = True"
| "is_write (UpdateStatus p) = True"
| "is_write c = False"

fun is_target_read :: "api_call \<Rightarrow> bool" where
  "is_target_read (GetVirtualService k) = True"
| "is_target_read (GetGateway k) = True"
| "is_target_read c = False"

fun is_gateway_read :: "api_call \<Rightarrow> bool" where
  "is_gateway_read (GetGateway k) = True"
| "is_gateway_read c = False"

record cluster =
  c_policies :: "HTTPFilterPolicy list"
  c_virtualservices :: "VirtualService list"
  c_gateways :: "Gateway list"
  c_envoyfilters :: "EnvoyFilter list"
  c_fieldIndexes :: "(string \<times> (HTTPFilterPolicy \<Rightarrow> string list)) list"
  c_faults :: "(api_call \<times> api_error) list"
  c_calls :: "api_call list"

definition called :: "api_call \<Rightarrow> cluster \<Rightarrow> cluster" where
  "called c cl = cl\<lparr>c_calls := c_calls cl @ [c]\<rparr>"

definition ef_key :: "EnvoyFilter \<Rightarrow> NamespacedName" where
  "ef_key ef = \<lparr>nn_Namespace = ef_Namespace ef, nn_Name = ef_Name ef\<rparr>"

definition has_label :: "string \<Rightarrow> string \<Rightarrow> EnvoyFilter \<Rightarrow> bool" where
  "has_label k v ef = (map_of (ef_Labels ef) k = Some v)"

text \<open>
  Every call is recorded, whether it fails or not. A read returns its result and the
  client with the longer trace; the store is not changed by it.
\<close>

definition fault :: "cluster \<Rightarrow> api_call \<Rightarrow> api_error option" where
  "fault cl c = map_of (c_faults cl) c"

definition client_List_policies :: "cluster \<Rightarrow> (api_error + HTTPFilterPolicy list) \<times> cluster" where
  "client_List_policies cl =
     ((case fault cl ListHTTPFilterPolicy of
         Some e \<Rightarrow> Inl e
       | None \<Rightarrow> Inr (c_policies cl)),
      called ListHTTPFilterPolicy cl)"

text \<open>
  A list with the field selector \<open>idx = name\<close> returns the policies for which the
  function registered under \<open>idx\<close> yields \<open>name\<close>; it fails when no index of that name
  is registered.
\<close>

definition client_List_policies_by_field ::
  "string \<Rightarrow> string \<Rightarrow> cluster \<Rightarrow> (api_error + HTTPFilterPolicy list) \<times> cluster" where
  "client_List_policies_by_field idx name cl =
     ((case fault cl (ListHTTPFilterPolicyByField idx name) of
         Some e \<Rightarrow> Inl e
       | None \<Rightarrow>
           (case map_of (c_fieldIndexes cl) idx of
              None \<Rightarrow> Inl (Failure ''index does not exist'')
            | Some f \<Rightarrow> Inr (filter (\<lambda>p. name \<in> set (f p)) (c_policies cl)))),
      called (ListHTTPFilterPolicyByField idx name) cl)"

definition client_Get_VirtualService ::
  "NamespacedName \<Rightarrow> cluster \<Rightarrow> (api_error + VirtualService) \<times> cluster" where
  "client_Get_VirtualService k cl =
     ((case fault cl (GetVirtualService k) of
         Some e \<Rightarrow> Inl e
       | None \<Rightarrow>
           (case find (\<lambda>v. vs_Namespace v = nn_Namespace k \<and> vs_Name v = nn_Name k)
                   (c_virtualservices cl) of
              None \<Rightarrow> Inl NotFound
            | Some v \<Rightarrow> Inr v)),
      called (GetVirtualService k) cl)"

definition client_Get_Gateway ::
  "NamespacedName \<Rightarrow> cluster \<Rightarrow> (api_error + Gateway) \<times> cluster" where
  "client_Get_Gateway k cl =
     ((case fault cl (GetGateway k) of
         Some e \<Rightarrow> Inl e
       | None \<Rightarrow>
           (case find (\<lambda>g. gw_Namespace g = nn_Namespace k \<and> gw_Name g = nn_Name k)
                   (c_gateways cl) of
              None \<Rightarrow> Inl NotFound
            | Some g \<Rightarrow> Inr g)),
      called (GetGateway k) cl)"

definition client_List_EnvoyFilters ::
  "string \<Rightarrow> string \<Rightarrow> cluster \<Rightarrow> (api_error + EnvoyFilter list) \<times> cluster" where
  "client_List_EnvoyFilters k v cl =
     ((case fault cl (ListEnvoyFilterByLabel k v) of
         Some e \<Rightarrow> Inl e
       | None \<Rightarrow> Inr (filter (has_label k v) (c_envoyfilters cl))),
      called (ListEnvoyFilterByLabel k v) cl)"

definition stored :: "NamespacedName \<Rightarrow> cluster \<Rightarrow> EnvoyFilter option" where
  "stored k cl = find (\<lambda>e. ef_key e = k) (c_envoyfilters cl)"

definition client_Get_EnvoyFilter ::
  "NamespacedName \<Rightarrow> cluster \<Rightarrow> (api_error + EnvoyFilter) \<times> cluster" where
  "client_Get_EnvoyFilter k cl =
     ((case fault cl (GetEnvoyFilter k) of
         Some e \<Rightarrow> Inl e
       | None \<Rightarrow>
           (case stored k cl of
              None \<Rightarrow> Inl NotFound
            | Some e \<Rightarrow> Inr e)),
      called (GetEnvoyFilter k) cl)"

text \<open>
  Writes. A delete or an update of an object that is not stored fails with "not found",
  a create of one that is stored fails, and an update whose resourceVersion is not the
  stored one fails (the API server's optimistic concurrency control). A write that
  fails changes nothing but the trace.
\<close>

definition client_Delete_EnvoyFilter :: "EnvoyFilter \<Rightarrow> cluster \<Rightarrow> api_error option \<times> cluster" where
  "client_Delete_EnvoyFilter ef cl =
     (case fault cl (DeleteEnvoyFilter (ef_key ef)) of
        Some e \<Rightarrow> (Some e, called (DeleteEnvoyFilter (ef_key ef)) cl)
      | None \<Rightarrow>
          (case stored (ef_key ef) cl of
             None \<Rightarrow> (Some NotFound, called (DeleteEnvoyFilter (ef_key ef)) cl)
           | Some old \<Rightarrow>
               (None, called (DeleteEnvoyFilter (ef_key ef))
                        (cl\<lparr>c_envoyfilters :=
                              filter (\<lambda>e. ef_key e \<noteq> ef_key ef) (c_envoyfilters cl)\<rparr>))))"

definition client_Create_EnvoyFilter :: "EnvoyFilter \<Rightarrow> cluster \<Rightarrow> api_error option \<times> cluster" where
  "client_Create_EnvoyFilter ef cl =
     (case fault cl (CreateEnvoyFilter ef) of
        Some e \<Rightarrow> (Some e, called (CreateEnvoyFilter ef) cl)
      | None \<Rightarrow>
          (case stored (ef_key ef) cl of
             Some old \<Rightarrow> (Some (Failure ''already exists''), called (CreateEnvoyFilter ef) cl)
           | None \<Rightarrow>
               (None, called (CreateEnvoyFilter ef)
                        (cl\<lparr>c_envoyfilters := c_envoyfilters cl @ [ef]\<rparr>))))"

definition client_Update_EnvoyFilter :: "EnvoyFilter \<Rightarrow> cluster \<Rightarrow> api_error option \<times> cluster" where
  "client_Update_EnvoyFilter ef cl =
     (case fault cl (UpdateEnvoyFilter ef) of
        Some e \<Rightarrow> (Some e, called (UpdateEnvoyFilter ef) cl)
      | None \<Rightarrow>
          (case stored (ef_key ef) cl of
             None \<Rightarrow> (Some NotFound, called (UpdateEnvoyFilter ef) cl)
           | Some old \<Rightarrow>
               if ef_ResourceVersion old \<noteq> ef_ResourceVersion ef
               then (Some (Failure ''conflict''), called (UpdateEnvoyFilter ef) cl)
               else (None, called (UpdateEnvoyFilter ef)
                             (cl\<lparr>c_envoyfilters :=
                                   map (\<lambda>e. if ef_key e = ef_key ef then ef else e)
                                     (c_envoyfilters cl)\<rparr>))))"

definition same_policy :: "HTTPFilterPolicy \<Rightarrow> HTTPFilterPolicy \<Rightarrow> bool" where
  "same_policy p q = (hfp_Namespace q = hfp_Namespace p \<and> hfp_Name q = hfp_Name p)"

definition client_Status_Update :: "HTTPFilterPolicy \<Rightarrow> cluster \<Rightarrow> api_error option \<times> cluster" where
  "client_Status_Update p cl =
     (case fault cl (UpdateStatus p) of
        Some e \<Rightarrow> (Some e, called (UpdateStatus p) cl)
      | None \<Rightarrow>
          if \<not> list_ex (same_policy p) (c_policies cl)
          then (Some NotFound, called (UpdateStatus p) cl)
          else (None, called (UpdateStatus p)
                        (cl\<lparr>c_policies :=
                              map (\<lambda>q. if same_policy p q then q\<lparr>hfp_Status := hfp_Status p\<rparr> else q)
                                (c_policies cl)\<rparr>)))"

section \<open>Collaborators that are not part of the controller file\<close>

text \<open>
  The validators, the policy's \<open>IsChanged\<close>, \<open>IsValid\<close> and \<open>Status.IsChanged\<close>
  methods, \<open>config.RootNamespace\<close> and the translation engine's \<open>Process\<close> are defined
  in other packages. They are parameters of the model: every theorem holds for whatever
  they compute. A validator returns \<open>Some message\<close> for an error and \<open>None\<close> for nil.
\<close>

type_synonym InitState = "(HTTPFilterPolicy \<times> VirtualService \<times> Gateway) list"

record FinalState =
  fs_EnvoyFilters :: "(string \<times> EnvoyFilter) list"

record env =
  IsChanged :: "HTTPFilterPolicy \<Rightarrow> bool"
  IsValid :: "HTTPFilterPolicy \<Rightarrow> bool"
  StatusIsChanged :: "HTTPFilterPolicy \<Rightarrow> bool"
  ValidateHTTPFilterPolicy :: "HTTPFilterPolicy \<Rightarrow> string option"
  ValidateVirtualService :: "VirtualService \<Rightarrow> string option"
  ValidateGateway :: "Gateway \<Rightarrow> string option"
  RootNamespace :: string
  Process :: "InitState \<Rightarrow> string + FinalState"

text \<open>
  Modelled from the spec: \<open>HTTPFilterPolicy.SetAccepted(reason, msg...)\<close> is defined
  with the policy type, outside the controller file. The spec gives the status as
  \<open>{accepted, reason, message}\<close>, written only by the controller; the model stores the
  reason, whether it is the accepting one, and the message argument when one is given.
\<close>

definition SetAccepted ::
  "PolicyConditionReason \<Rightarrow> string list \<Rightarrow> HTTPFilterPolicy \<Rightarrow> HTTPFilterPolicy" where
  "SetAccepted reason msg p =
     p\<lparr>hfp_Status := Some \<lparr>st_Accepted = (reason = PolicyReasonAccepted),
                            st_Reason = reason,
                            st_Message = (case msg of [] \<Rightarrow> None | m # ms \<Rightarrow> Some m)\<rparr>\<rparr>"

text \<open>
  Modelled from the spec: \<open>translation.NewInitState\<close> and
  \<open>InitState.AddPolicyForVirtualService\<close> belong to the translation engine. The spec
  describes an accumulator of (policy, virtual service, gateway) registrations; the
  model keeps them in call order.
\<close>

definition NewInitState :: InitState where
  "NewInitState = []"

definition AddPolicyForVirtualService ::
  "HTTPFilterPolicy \<Rightarrow> VirtualService \<Rightarrow> Gateway \<Rightarrow> InitState \<Rightarrow> InitState" where
  "AddPolicyForVirtualService policy vs gw s = s @ [(policy, vs, gw)]"

text \<open>
  Modelled from the spec: \<open>k8s.GetObjectKey\<close> derives a string key from an object's
  namespace and name. The spec fixes no format; namespace/name is taken here, and the
  theorems hold whatever the format is.
\<close>

definition GetObjectKey :: "string \<Rightarrow> string \<Rightarrow> string" where
  "GetObjectKey namespace name = namespace @ ''/'' @ name"

text \<open>\<open>strings.Contains\<close>: some suffix of \<open>s\<close> starts with \<open>sub\<close>.\<close>

fun strings_Contains :: "string \<Rightarrow> string \<Rightarrow> bool" where
  "strings_Contains [] sub = (sub = [])"
| "strings_Contains (c # cs) sub =
     (take (length sub) (c # cs) = sub \<or> strings_Contains cs sub)"

section \<open>The reconciler\<close>

text \<open>
  The reconciler holds the client and the gateway indexer's map from a gateway's key to
  the policies that depend on it. A pointer to a policy is represented by the policy as
  it was when the pointer was taken, so a status set afterwards is not seen through it.
  The indexer reads only the name and the namespace through these pointers; what the
  translation engine reads through the ones it is given is outside the controller
  file, and \<open>Process\<close> is a parameter.
\<close>

record reconciler =
  r_client :: cluster
  r_istioGatewayIndex :: "string \<rightharpoonup> HTTPFilterPolicy list"

subsection \<open>policyToTranslationState\<close>

text \<open>
  The locals of \<open>policyToTranslationState\<close> that its loops change: the client (for its
  trace), the items processed so far (each with the status the pass gave it), the
  initial translation state, the gateway index under construction and the
  \<open>accepted\<close> flag of the policy in hand.
\<close>

record build_state =
  bs_client :: cluster
  bs_items :: "HTTPFilterPolicy list"
  bs_initState :: InitState
  bs_istioGwIdx :: "string \<rightharpoonup> HTTPFilterPolicy list"
  bs_accepted :: bool

definition namespace_mismatch :: string where
  "namespace_mismatch =
     ''namespace in TargetRef doesn'' @ [CHR 0x27] @ ''t match HTTPFilterPolicy'' @ [CHR 0x27] @ ''s namespace''"

text \<open>
  Lines 124 to 144: the name of the target, and the checks made only when the policy
  \<open>IsChanged\<close>. \<open>Inl\<close> is the \<open>continue\<close> of the loop, with the policy marked invalid.
\<close>

definition resolve_nsName :: "env \<Rightarrow> HTTPFilterPolicy \<Rightarrow> HTTPFilterPolicy + NamespacedName" where
  "resolve_nsName env policy =
     (let ref = hfp_TargetRef policy;
          nsName = \<lparr>nn_Namespace = hfp_Namespace policy, nn_Name = tr_Name ref\<rparr>
      in if IsChanged env policy then
           (case ValidateHTTPFilterPolicy env policy of
              Some err \<Rightarrow> Inl (SetAccepted PolicyReasonInvalid [err] policy)
            | None \<Rightarrow>
                (case tr_Namespace ref of
                   None \<Rightarrow> Inr nsName
                 | Some ns \<Rightarrow>
                     if ns \<noteq> hfp_Namespace policy
                     then Inl (SetAccepted PolicyReasonInvalid [namespace_mismatch] policy)
                     else Inr (nsName\<lparr>nn_Namespace := ns\<rparr>)))
         else Inr nsName)"

text \<open>Lines 171 to 178: is there an HTTP route section of that name?\<close>

definition section_found :: "string \<Rightarrow> HTTPRoute list \<Rightarrow> bool" where
  "section_found name http = list_ex (\<lambda>section. hr_Name section = name) http"

text \<open>Lines 221 to 225: append the policy under the gateway's key.\<close>

definition index_append ::
  "string \<Rightarrow> HTTPFilterPolicy \<Rightarrow> (string \<rightharpoonup> HTTPFilterPolicy list) \<Rightarrow> (string \<rightharpoonup> HTTPFilterPolicy list)" where
  "index_append key policy idx =
     idx(key \<mapsto> (case idx key of None \<Rightarrow> [] | Some ps \<Rightarrow> ps) @ [policy])"

text \<open>
  Lines 187 to 227, the body of the gateway loop for one gateway reference. \<open>Some err\<close>
  is the function's \<open>return nil, err\<close>; \<open>None\<close> goes on with the next reference.
\<close>

definition gateway_step ::
  "env \<Rightarrow> HTTPFilterPolicy \<Rightarrow> VirtualService \<Rightarrow> string \<Rightarrow> build_state \<Rightarrow> error option \<times> build_state" where
  "gateway_step env policy virtualService gw st =
     (if gw = ''mesh'' then (None, st)
      else if strings_Contains gw ''/'' then (None, st)
      else
        (case client_Get_Gateway \<lparr>nn_Namespace = vs_Namespace virtualService, nn_Name = gw\<rparr>
                (bs_client st) of
           (Inl err, cl) \<Rightarrow>
             if \<not> IsNotFound err then (Some (ApiError err), st\<lparr>bs_client := cl\<rparr>)
             else (None, st\<lparr>bs_client := cl\<rparr>)
         | (Inr gateway, cl) \<Rightarrow>
             (case ValidateGateway env gateway of
                Some err \<Rightarrow> (None, st\<lparr>bs_client := cl\<rparr>)
              | None \<Rightarrow>
                  (None, st\<lparr>bs_client := cl,
                            bs_initState :=
                              AddPolicyForVirtualService policy virtualService gateway (bs_initState st),
                            bs_istioGwIdx :=
                              index_append (GetObjectKey (gw_Namespace gateway) (gw_Name gateway))
                                policy (bs_istioGwIdx st),
                            bs_accepted := True\<rparr>))))"

fun gateway_loop ::
  "env \<Rightarrow> HTTPFilterPolicy \<Rightarrow> VirtualService \<Rightarrow> string list \<Rightarrow> build_state \<Rightarrow> error option \<times> build_state" where
  "gateway_loop env policy virtualService [] st = (None, st)"
| "gateway_loop env policy virtualService (gw # gws) st =
     (case gateway_step env policy virtualService gw st of
        (Some err, st') \<Rightarrow> (Some err, st')
      | (None, st') \<Rightarrow> gateway_loop env policy virtualService gws st')"

text \<open>The policy leaves the loop body with the status it was given.\<close>

definition next_policy :: "HTTPFilterPolicy \<Rightarrow> build_state \<Rightarrow> build_state" where
  "next_policy policy st = st\<lparr>bs_items := bs_items st @ [policy]\<rparr>"

text \<open>Lines 231 to 235.\<close>

definition set_final_status :: "HTTPFilterPolicy \<Rightarrow> build_state \<Rightarrow> build_state" where
  "set_final_status policy st =
     (if bs_accepted st then next_policy (SetAccepted PolicyReasonAccepted [] policy) st
      else next_policy
             (SetAccepted PolicyReasonTargetNotFound [''invalid target resource''] policy) st)"

text \<open>
  Lines 122 to 235, the loop body for one policy. On \<open>Some err\<close> the function returns
  \<open>nil, err\<close> and the rest of the state is dropped by the caller.
\<close>

definition policy_step :: "env \<Rightarrow> HTTPFilterPolicy \<Rightarrow> build_state \<Rightarrow> error option \<times> build_state" where
  "policy_step env policy st =
     (case resolve_nsName env policy of
        Inl policy' \<Rightarrow> (None, next_policy policy' st)
      | Inr nsName \<Rightarrow>
          if \<not> IsValid env policy then (None, next_policy policy st)
          else
            let st0 = st\<lparr>bs_accepted := False\<rparr>; ref = hfp_TargetRef policy in
            if tr_Group ref = ''networking.istio.io'' \<and> tr_Kind ref = ''VirtualService'' then
              (case client_Get_VirtualService nsName (bs_client st0) of
                 (Inl err, cl) \<Rightarrow>
                   if \<not> IsNotFound err
                   then (Some (Errorf ''failed to get VirtualService'' err (Some nsName)),
                         st0\<lparr>bs_client := cl\<rparr>)
                   else (None, next_policy (SetAccepted PolicyReasonTargetNotFound [] policy)
                                 (st0\<lparr>bs_client := cl\<rparr>))
               | (Inr virtualService, cl) \<Rightarrow>
                   (case ValidateVirtualService env virtualService of
                      Some err \<Rightarrow>
                        (None, next_policy (SetAccepted PolicyReasonTargetNotFound [err] policy)
                                 (st0\<lparr>bs_client := cl\<rparr>))
                    | None \<Rightarrow>
                        if (case tr_SectionName ref of
                              None \<Rightarrow> False
                            | Some name \<Rightarrow> \<not> section_found name (vs_Http virtualService))
                        then (None, next_policy (SetAccepted PolicyReasonTargetNotFound [] policy)
                                      (st0\<lparr>bs_client := cl\<rparr>))
                        else
                          (case gateway_loop env policy virtualService
                                  (vs_Gateways virtualService) (st0\<lparr>bs_client := cl\<rparr>) of
                             (Some err, st1) \<Rightarrow> (Some err, st1)
                           | (None, st1) \<Rightarrow> (None, set_final_status policy st1))))
            else (None, set_final_status policy st0))"

fun policies_loop :: "env \<Rightarrow> HTTPFilterPolicy list \<Rightarrow> build_state \<Rightarrow> error option \<times> build_state" where
  "policies_loop env [] st = (None, st)"
| "policies_loop env (policy # rest) st =
     (case policy_step env policy st of
        (Some err, st') \<Rightarrow> (Some err, st')
      | (None, st') \<Rightarrow> policies_loop env rest st')"

definition UpdateIndex :: "(string \<rightharpoonup> HTTPFilterPolicy list) \<Rightarrow> reconciler \<Rightarrow> reconciler" where
  "UpdateIndex idx r = r\<lparr>r_istioGatewayIndex := idx\<rparr>"

text \<open>
  The result is Go's pair \<open>(*InitState, error)\<close>, the caller's \<open>policies\<close> list as
  the pass left it, and the reconciler. The loop changes the listed items in place: when
  it returns an error, the list holds the items processed so far, with the statuses
  they were given, followed by the item at which it failed and the items after it, as
  they were listed (no status is set on a policy before the read that fails for it).
\<close>

definition policyToTranslationState ::
  "env \<Rightarrow> reconciler \<Rightarrow> (InitState option \<times> error option) \<times> HTTPFilterPolicy list \<times> reconciler" where
  "policyToTranslationState env r =
     (case client_List_policies (r_client r) of
        (Inl err, cl) \<Rightarrow>
          ((None, Some (Errorf ''failed to list HTTPFilterPolicy'' err None)), [],
           r\<lparr>r_client := cl\<rparr>)
      | (Inr items, cl) \<Rightarrow>
          (case policies_loop env items
                  \<lparr>bs_client = cl, bs_items = [], bs_initState = NewInitState,
                   bs_istioGwIdx = Map.empty, bs_accepted = False\<rparr> of
             (Some err, st) \<Rightarrow>
               ((None, Some err), bs_items st @ drop (length (bs_items st)) items,
                r\<lparr>r_client := bs_client st\<rparr>)
           | (None, st) \<Rightarrow>
               ((Some (bs_initState st), None), bs_items st,
                UpdateIndex (bs_istioGwIdx st) (r\<lparr>r_client := bs_client st\<rparr>))))"

subsection \<open>translationStateToCustomResource\<close>

text \<open>
  \<open>FinalState.EnvoyFilters\<close> is a Go map from a name to an EnvoyFilter, kept as an
  association list; Go ranges over a map in no fixed order, here the order of the list.
  A Go map is a list with distinct keys; the functions below do not need the keys to
  be distinct, the convergence property of the applier assumes it.
\<close>

text \<open>Lines 251 to 259: delete the listed EnvoyFilters whose name is not a key.\<close>

fun prune_loop :: "FinalState \<Rightarrow> EnvoyFilter list \<Rightarrow> cluster \<Rightarrow> error option \<times> cluster" where
  "prune_loop finalState [] cl = (None, cl)"
| "prune_loop finalState (ef # efs) cl =
     (case map_of (fs_EnvoyFilters finalState) (ef_Name ef) of
        None \<Rightarrow>
          (case client_Delete_EnvoyFilter ef cl of
             (Some err, cl') \<Rightarrow>
               (Some (Errorf ''failed to delete EnvoyFilter'' err (Some (ef_key ef))), cl')
           | (None, cl') \<Rightarrow> prune_loop finalState efs cl')
      | Some d \<Rightarrow> prune_loop finalState efs cl)"

text \<open>Lines 262 to 266: the desired object as the controller writes it.\<close>

definition owned :: "env \<Rightarrow> EnvoyFilter \<Rightarrow> EnvoyFilter" where
  "owned env ef =
     ef\<lparr>ef_Namespace := RootNamespace env,
        ef_Labels := AList.update LabelCreatedBy ''HTTPFilterPolicy'' (ef_Labels ef)\<rparr>"

text \<open>Lines 262 to 294, the body of the second loop for one desired object.\<close>

definition upsert_step :: "env \<Rightarrow> EnvoyFilter \<Rightarrow> cluster \<Rightarrow> error option \<times> cluster" where
  "upsert_step env desired cl =
     (let ef = owned env desired; nsName = ef_key ef in
      case client_Get_EnvoyFilter nsName cl of
        (Inl err, cl1) \<Rightarrow>
          if \<not> IsNotFound err
          then (Some (Errorf ''failed to get EnvoyFilter'' err (Some nsName)), cl1)
          else
            (case client_Create_EnvoyFilter ef cl1 of
               (Some err', cl2) \<Rightarrow>
                 (Some (Errorf ''failed to create EnvoyFilter'' err' (Some nsName)), cl2)
             | (None, cl2) \<Rightarrow> (None, cl2))
      | (Inr envoyfilter, cl1) \<Rightarrow>
          if ef_Spec envoyfilter = ef_Spec ef then (None, cl1)
          else
            (case client_Update_EnvoyFilter
                    (ef\<lparr>ef_ResourceVersion := ef_ResourceVersion envoyfilter\<rparr>) cl1 of
               (Some err', cl2) \<Rightarrow>
                 (Some (Errorf ''failed to update EnvoyFilter'' err' (Some nsName)), cl2)
             | (None, cl2) \<Rightarrow> (None, cl2)))"

fun upsert_loop :: "env \<Rightarrow> EnvoyFilter list \<Rightarrow> cluster \<Rightarrow> error option \<times> cluster" where
  "upsert_loop env [] cl = (None, cl)"
| "upsert_loop env (ef # efs) cl =
     (case upsert_step env ef cl of
        (Some err, cl') \<Rightarrow> (Some err, cl')
      | (None, cl') \<Rightarrow> upsert_loop env efs cl')"

definition translationStateToCustomResource ::
  "env \<Rightarrow> FinalState \<Rightarrow> cluster \<Rightarrow> error option \<times> cluster" where
  "translationStateToCustomResource env finalState cl =
     (case client_List_EnvoyFilters LabelCreatedBy ''HTTPFilterPolicy'' cl of
        (Inl err, cl0) \<Rightarrow> (Some (Errorf ''failed to list EnvoyFilter'' err None), cl0)
      | (Inr envoyfilters, cl0) \<Rightarrow>
          (case prune_loop finalState envoyfilters cl0 of
             (Some err, cl1) \<Rightarrow> (Some err, cl1)
           | (None, cl1) \<Rightarrow> upsert_loop env (map snd (fs_EnvoyFilters finalState)) cl1))"

subsection \<open>updatePolicies and Reconcile\<close>

fun updatePolicies :: "env \<Rightarrow> HTTPFilterPolicy list \<Rightarrow> cluster \<Rightarrow> error option \<times> cluster" where
  "updatePolicies env [] cl = (None, cl)"
| "updatePolicies env (policy # rest) cl =
     (if \<not> StatusIsChanged env policy then updatePolicies env rest cl
      else
        (case client_Status_Update policy cl of
           (Some err, cl') \<Rightarrow>
             (Some (Errorf ''failed to update HTTPFilterPolicy status'' err
                      (Some \<lparr>nn_Namespace = hfp_Namespace policy, nn_Name = hfp_Name policy\<rparr>)),
              cl')
         | (None, cl') \<Rightarrow> updatePolicies env rest cl'))"

record ctrl_Result =
  Requeue :: bool

definition empty_Result :: ctrl_Result where
  "empty_Result = \<lparr>Requeue = False\<rparr>"

text \<open>
  \<open>Reconcile\<close> returns Go's pair \<open>(ctrl.Result, error)\<close>. The request is not read, and
  the duration metric is not modelled.
\<close>

definition Reconcile :: "env \<Rightarrow> reconciler \<Rightarrow> (ctrl_Result \<times> error option) \<times> reconciler" where
  "Reconcile env r =
     (case policyToTranslationState env r of
        ((initState, Some err), policies, r1) \<Rightarrow> ((empty_Result, Some err), r1)
      | ((None, None), policies, r1) \<Rightarrow> ((empty_Result, None), r1)
      | ((Some initState, None), policies, r1) \<Rightarrow>
          (case Process env initState of
             Inl err \<Rightarrow> ((empty_Result, None), r1)
           | Inr finalState \<Rightarrow>
               (case translationStateToCustomResource env finalState (r_client r1) of
                  (Some err, cl2) \<Rightarrow> ((empty_Result, Some err), r1\<lparr>r_client := cl2\<rparr>)
                | (None, cl2) \<Rightarrow>
                    (case updatePolicies env policies cl2 of
                       (err, cl3) \<Rightarrow> ((empty_Result, err), r1\<lparr>r_client := cl3\<rparr>)))))"

section \<open>The change-trigger indexers\<close>

record Request =
  req_NamespacedName :: NamespacedName

definition reconcileReqPlaceholder :: "Request list" where
  "reconcileReqPlaceholder =
     [\<lparr>req_NamespacedName = \<lparr>nn_Namespace = [], nn_Name = ''httpfilterpolicies''\<rparr>\<rparr>]"

definition triggerReconciliation :: "Request list" where
  "triggerReconciliation = reconcileReqPlaceholder"

definition VirtualServiceIndexer_IndexName :: string where
  "VirtualServiceIndexer_IndexName = ''spec.targetRef.kind.virtualService''"

definition VirtualServiceIndexer_Index :: "HTTPFilterPolicy \<Rightarrow> string list" where
  "VirtualServiceIndexer_Index po =
     (if tr_Group (hfp_TargetRef po) \<noteq> ''networking.istio.io''
         \<or> tr_Kind (hfp_TargetRef po) \<noteq> ''VirtualService''
      then []
      else [tr_Name (hfp_TargetRef po)])"

definition VirtualServiceIndexer_RegisterIndexer :: "cluster \<Rightarrow> cluster" where
  "VirtualServiceIndexer_RegisterIndexer cl =
     cl\<lparr>c_fieldIndexes :=
          AList.update VirtualServiceIndexer_IndexName VirtualServiceIndexer_Index
            (c_fieldIndexes cl)\<rparr>"

text \<open>
  \<open>findAffectedObjects\<close>: \<open>obj\<close> is the changed object, of which only the name and the
  namespace are read. A nil slice and an empty slice are both the empty list: the
  caller only ranges over the result.
\<close>

definition findAffectedObjects ::
  "cluster \<Rightarrow> NamespacedName \<Rightarrow> string \<Rightarrow> string \<Rightarrow> Request list \<times> cluster" where
  "findAffectedObjects reader obj kind idx =
     (case client_List_policies_by_field idx (nn_Name obj) reader of
        (Inl err, reader') \<Rightarrow> ([], reader')
      | (Inr items, reader') \<Rightarrow>
          (let requests =
                 map (\<lambda>item. \<lparr>req_NamespacedName =
                                  \<lparr>nn_Namespace = hfp_Namespace item, nn_Name = hfp_Name item\<rparr>\<rparr>)
                   items
           in if length requests > 0 then (triggerReconciliation, reader')
              else (requests, reader')))"

definition VirtualServiceIndexer_FindAffectedObjects ::
  "cluster \<Rightarrow> NamespacedName \<Rightarrow> Request list \<times> cluster" where
  "VirtualServiceIndexer_FindAffectedObjects reader obj =
     findAffectedObjects reader obj ''VirtualService'' VirtualServiceIndexer_IndexName"

text \<open>
  \<open>IstioGatewayIndexer.FindAffectedObjects\<close> reads the index under the read lock; the
  requests it builds from the recorded policies are only logged.
\<close>

definition IstioGatewayIndexer_FindAffectedObjects :: "reconciler \<Rightarrow> Gateway \<Rightarrow> Request list" where
  "IstioGatewayIndexer_FindAffectedObjects v gw =
     (case r_istioGatewayIndex v (GetObjectKey (gw_Namespace gw) (gw_Name gw)) of
        None \<Rightarrow> []
      | Some policies \<Rightarrow>
          (let requests =
                 map (\<lambda>policy. \<lparr>req_NamespacedName =
                                    \<lparr>nn_Namespace = hfp_Namespace policy, nn_Name = hfp_Name policy\<rparr>\<rparr>)
                   policies
           in triggerReconciliation))"

section \<open>Vocabulary of the properties\<close>

text \<open>The calls a run added to the trace, and a run that changed nothing but the trace.\<close>

definition new_calls :: "cluster \<Rightarrow> cluster \<Rightarrow> api_call list" where
  "new_calls cl cl' = drop (length (c_calls cl)) (c_calls cl')"

definition only_trace_grows :: "cluster \<Rightarrow> cluster \<Rightarrow> bool" where
  "only_trace_grows cl cl' = (cl' = cl\<lparr>c_calls := c_calls cl @ new_calls cl cl'\<rparr>)"

text \<open>The reason of the status a policy carries, if it carries one.\<close>

definition reason_of :: "HTTPFilterPolicy \<Rightarrow> PolicyConditionReason option" where
  "reason_of p = map_option st_Reason (hfp_Status p)"

definition targets_VirtualService :: "HTTPFilterPolicy \<Rightarrow> bool" where
  "targets_VirtualService policy =
     (tr_Group (hfp_TargetRef policy) = ''networking.istio.io''
      \<and> tr_Kind (hfp_TargetRef policy) = ''VirtualService'')"

text \<open>The sectionName check passes: no sectionName, or a section of exactly that name.\<close>

definition section_ok :: "HTTPFilterPolicy \<Rightarrow> VirtualService \<Rightarrow> bool" where
  "section_ok policy vs =
     (case tr_SectionName (hfp_TargetRef policy) of
        None \<Rightarrow> True
      | Some name \<Rightarrow> list_ex (\<lambda>section. hr_Name section = name) (vs_Http vs))"

text \<open>
  A gateway reference that is the literal "mesh" or has the cross-namespace form; what
  reading the referenced Gateway in the VirtualService's namespace returns; a reference
  that resolves to a Gateway passing validation; a reference whose read fails with an
  error other than "not found".
\<close>

definition skipped_gateway :: "string \<Rightarrow> bool" where
  "skipped_gateway gw = (gw = ''mesh'' \<or> CHR ''/'' \<in> set gw)"

definition gateway_read :: "cluster \<Rightarrow> VirtualService \<Rightarrow> string \<Rightarrow> api_error + Gateway" where
  "gateway_read cl vs gw =
     fst (client_Get_Gateway \<lparr>nn_Namespace = vs_Namespace vs, nn_Name = gw\<rparr> cl)"

definition usable_gateway :: "env \<Rightarrow> cluster \<Rightarrow> VirtualService \<Rightarrow> string \<Rightarrow> bool" where
  "usable_gateway env cl vs gw =
     (\<not> skipped_gateway gw \<and>
      (case gateway_read cl vs gw of
         Inl err \<Rightarrow> False
       | Inr gateway \<Rightarrow> ValidateGateway env gateway = None))"

definition gateway_read_fails :: "cluster \<Rightarrow> VirtualService \<Rightarrow> string \<Rightarrow> bool" where
  "gateway_read_fails cl vs gw =
     (\<not> skipped_gateway gw \<and>
      (case gateway_read cl vs gw of
         Inl err \<Rightarrow> \<not> IsNotFound err
       | Inr gateway \<Rightarrow> False))"

text \<open>
  The policy gets as far as the gateway loop: it passes the checks of lines 127 to 147,
  targets a VirtualService, the VirtualService \<open>vs\<close> is read and passes validation, and
  the sectionName check passes.
\<close>

definition reaches_gateway_loop :: "env \<Rightarrow> HTTPFilterPolicy \<Rightarrow> cluster \<Rightarrow> VirtualService \<Rightarrow> bool" where
  "reaches_gateway_loop env policy cl vs =
     (case resolve_nsName env policy of
        Inl p \<Rightarrow> False
      | Inr nsName \<Rightarrow>
          IsValid env policy \<and> targets_VirtualService policy
          \<and> fst (client_Get_VirtualService nsName cl) = Inr vs
          \<and> ValidateVirtualService env vs = None
          \<and> section_ok policy vs)"

text \<open>
  The calls \<open>policyToTranslationState\<close> makes: it lists the policies and reads
  VirtualServices and Gateways. None of them is a write.
\<close>

fun is_builder_read :: "api_call \<Rightarrow> bool" where
  "is_builder_read ListHTTPFilterPolicy = True"
| "is_builder_read (GetVirtualService k) = True"
| "is_builder_read (GetGateway k) = True"
| "is_builder_read c = False"

text \<open>
  The applier: an EnvoyFilter that carries the ownership label; the calls that delete;
  a trace that is the old one with calls appended; a final state whose objects are
  keyed by their own names; the keys under which the desired objects are written; the
  names of the labeled objects in the store, and the desired names.
\<close>

definition labeled :: "EnvoyFilter \<Rightarrow> bool" where
  "labeled ef = has_label LabelCreatedBy ''HTTPFilterPolicy'' ef"

fun is_delete :: "api_call \<Rightarrow> bool" where
  "is_delete (DeleteEnvoyFilter k) = True"
| "is_delete c = False"

definition trace_extends :: "cluster \<Rightarrow> cluster \<Rightarrow> bool" where
  "trace_extends cl cl' = (c_calls cl' = c_calls cl @ new_calls cl cl')"

definition keyed_by_name :: "FinalState \<Rightarrow> bool" where
  "keyed_by_name finalState = list_all (\<lambda>(n, d). ef_Name d = n) (fs_EnvoyFilters finalState)"

definition desired_keys :: "env \<Rightarrow> FinalState \<Rightarrow> NamespacedName list" where
  "desired_keys env finalState =
     map (\<lambda>d. ef_key (owned env d)) (map snd (fs_EnvoyFilters finalState))"

definition desired_names :: "FinalState \<Rightarrow> string set" where
  "desired_names finalState = set (map fst (fs_EnvoyFilters finalState))"

definition labeled_names :: "cluster \<Rightarrow> string set" where
  "labeled_names cl = set (map ef_Name (filter labeled (c_envoyfilters cl)))"

text \<open>
  The run of \<open>policyToTranslationState\<close> seen from one policy of the list: the
  policies the list call returns; the state in which the loop starts; the state in
  which the loop stands before the policy at index \<open>i\<close>; that the loop reaches that
  policy (the list call succeeds, the index is in the list and no earlier policy made
  the function return); and the list of policies as the function leaves it, where the
  caller reads the statuses.
\<close>

definition listed :: "reconciler \<Rightarrow> HTTPFilterPolicy list" where
  "listed r = c_policies (r_client r)"

definition start_state :: "reconciler \<Rightarrow> build_state" where
  "start_state r =
     \<lparr>bs_client = called ListHTTPFilterPolicy (r_client r), bs_items = [],
      bs_initState = NewInitState, bs_istioGwIdx = Map.empty, bs_accepted = False\<rparr>"

definition state_at :: "env \<Rightarrow> reconciler \<Rightarrow> nat \<Rightarrow> build_state" where
  "state_at env r i = snd (policies_loop env (take i (listed r)) (start_state r))"

definition reaches_policy :: "env \<Rightarrow> reconciler \<Rightarrow> nat \<Rightarrow> bool" where
  "reaches_policy env r i =
     (fault (r_client r) ListHTTPFilterPolicy = None \<and> i < length (listed r)
      \<and> fst (policies_loop env (take i (listed r)) (start_state r)) = None)"

definition policies_after :: "env \<Rightarrow> reconciler \<Rightarrow> HTTPFilterPolicy list" where
  "policies_after env r = fst (snd (policyToTranslationState env r))"

text \<open>
  The labeled objects of the store and the desired objects, each as the namespace and
  name under which it is stored, with its spec.
\<close>

definition labeled_objects :: "cluster \<Rightarrow> (NamespacedName \<times> EnvoyFilterSpec) set" where
  "labeled_objects cl =
     set (map (\<lambda>e. (ef_key e, ef_Spec e)) (filter labeled (c_envoyfilters cl)))"

definition desired_objects :: "env \<Rightarrow> FinalState \<Rightarrow> (NamespacedName \<times> EnvoyFilterSpec) set" where
  "desired_objects env finalState =
     set (map (\<lambda>d. (ef_key (owned env d), ef_Spec d)) (map snd (fs_EnvoyFilters finalState)))"

subsection \<open>Sample objects\<close>

text \<open>
  A small cluster on which the theorems are exercised: one policy targeting the
  VirtualService \<open>vs\<close>, which names the gateways "mesh", "other/gw" and "gw"; sample
  validators that reject an object whose opaque part is empty.
\<close>

definition demo_env :: env where
  "demo_env =
     \<lparr>IsChanged = (\<lambda>p. hfp_Status p = None),
      IsValid = (\<lambda>p. reason_of p \<noteq> Some PolicyReasonInvalid),
      StatusIsChanged = (\<lambda>p. hfp_Status p \<noteq> None),
      ValidateHTTPFilterPolicy = (\<lambda>p. if hfp_Filters p = [] then Some ''no filter'' else None),
      ValidateVirtualService = (\<lambda>v. if vs_Hosts v = [] then Some ''no host'' else None),
      ValidateGateway = (\<lambda>g. if gw_Servers g = [] then Some ''no server'' else None),
      RootNamespace = ''istio-system'',
      Process = (\<lambda>s. Inl ''translation failed'')\<rparr>"

definition demo_ref :: TargetRef where
  "demo_ref =
     \<lparr>tr_Group = ''networking.istio.io'', tr_Kind = ''VirtualService'', tr_Name = ''vs'',
      tr_Namespace = None, tr_SectionName = None\<rparr>"

definition demo_policy :: HTTPFilterPolicy where
  "demo_policy =
     \<lparr>hfp_Name = ''policy'', hfp_Namespace = ''default'', hfp_TargetRef = demo_ref,
      hfp_Filters = [''limit''], hfp_Status = None\<rparr>"

definition demo_vs :: VirtualService where
  "demo_vs =
     \<lparr>vs_Name = ''vs'', vs_Namespace = ''default'', vs_Hosts = [''example.com''],
      vs_Http = [\<lparr>hr_Name = ''route''\<rparr>], vs_Gateways = [''mesh'', ''other/gw'', ''gw'']\<rparr>"

definition demo_gw :: Gateway where
  "demo_gw = \<lparr>gw_Name = ''gw'', gw_Namespace = ''default'', gw_Servers = [''http'']\<rparr>"

definition demo_cluster :: cluster where
  "demo_cluster =
     \<lparr>c_policies = [demo_policy], c_virtualservices = [demo_vs], c_gateways = [demo_gw],
      c_envoyfilters = [],
      c_fieldIndexes = [(VirtualServiceIndexer_IndexName, VirtualServiceIndexer_Index)],
      c_faults = [], c_calls = []\<rparr>"

definition demo_state :: "cluster \<Rightarrow> build_state" where
  "demo_state cl =
     \<lparr>bs_client = cl, bs_items = [], bs_initState = NewInitState,
      bs_istioGwIdx = Map.empty, bs_accepted = False\<rparr>"

definition demo_vs_key :: NamespacedName where
  "demo_vs_key = \<lparr>nn_Namespace = ''default'', nn_Name = ''vs''\<rparr>"

definition demo_gw_key :: NamespacedName where
  "demo_gw_key = \<lparr>nn_Namespace = ''default'', nn_Name = ''gw''\<rparr>"

definition demo_cluster_skipped :: cluster where
  "demo_cluster_skipped =
     demo_cluster\<lparr>c_virtualservices := [demo_vs\<lparr>vs_Gateways := [''mesh'', ''other/gw'']\<rparr>]\<rparr>"

definition demo_policy_other_kind :: HTTPFilterPolicy where
  "demo_policy_other_kind =
     demo_policy\<lparr>hfp_TargetRef :=
       demo_ref\<lparr>tr_Group := ''gateway.networking.k8s.io'', tr_Kind := ''HTTPRoute''\<rparr>\<rparr>"

definition demo_policy_section :: HTTPFilterPolicy where
  "demo_policy_section = demo_policy\<lparr>hfp_TargetRef := demo_ref\<lparr>tr_SectionName := Some ''foo''\<rparr>\<rparr>"

definition demo_cluster_no_gw :: cluster where
  "demo_cluster_no_gw = demo_cluster\<lparr>c_gateways := []\<rparr>"

definition demo_cluster_no_vs :: cluster where
  "demo_cluster_no_vs = demo_cluster\<lparr>c_virtualservices := []\<rparr>"

definition demo_cluster_vs_fault :: cluster where
  "demo_cluster_vs_fault =
     demo_cluster\<lparr>c_faults := [(GetVirtualService demo_vs_key, Failure ''timeout'')]\<rparr>"

definition demo_cluster_gw_fault :: cluster where
  "demo_cluster_gw_fault =
     demo_cluster\<lparr>c_faults := [(GetGateway demo_gw_key, Failure ''timeout'')]\<rparr>"

definition demo_policy_other_ns :: HTTPFilterPolicy where
  "demo_policy_other_ns =
     demo_policy\<lparr>hfp_TargetRef := demo_ref\<lparr>tr_Namespace := Some ''other''\<rparr>\<rparr>"

definition demo_policy_seen_other_ns :: HTTPFilterPolicy where
  "demo_policy_seen_other_ns =
     demo_policy_other_ns\<lparr>hfp_Status :=
       Some \<lparr>st_Accepted = True, st_Reason = PolicyReasonAccepted, st_Message = None\<rparr>\<rparr>"

definition demo_reconciler :: "cluster \<Rightarrow> reconciler" where
  "demo_reconciler cl = \<lparr>r_client = cl, r_istioGatewayIndex = Map.empty\<rparr>"

definition demo_reconciler_three :: reconciler where
  "demo_reconciler_three =
     \<lparr>r_client = demo_cluster,
      r_istioGatewayIndex =
        Map.empty(GetObjectKey ''default'' ''gw'' \<mapsto>
                    [demo_policy, demo_policy_section, demo_policy_other_ns])\<rparr>"

definition demo_cluster_three :: cluster where
  "demo_cluster_three =
     demo_cluster\<lparr>c_policies := [demo_policy, demo_policy_section, demo_policy_other_ns]\<rparr>"

definition demo_cluster_list_fault :: cluster where
  "demo_cluster_list_fault =
     demo_cluster_three\<lparr>c_faults :=
       [(ListHTTPFilterPolicyByField VirtualServiceIndexer_IndexName ''vs'', Failure ''timeout'')]\<rparr>"

definition owner_labels :: "(string \<times> string) list" where
  "owner_labels = [(LabelCreatedBy, ''HTTPFilterPolicy'')]"

definition demo_ef_stale :: EnvoyFilter where
  "demo_ef_stale =
     \<lparr>ef_Name = ''htnn-h-old.example.com'', ef_Namespace = ''istio-system'',
      ef_Labels = owner_labels, ef_ResourceVersion = ''7'', ef_Spec = [''old'']\<rparr>"

definition demo_ef_user :: EnvoyFilter where
  "demo_ef_user =
     \<lparr>ef_Name = ''user-filter'', ef_Namespace = ''istio-system'',
      ef_Labels = [], ef_ResourceVersion = ''3'', ef_Spec = [''user'']\<rparr>"

definition demo_ef_current :: EnvoyFilter where
  "demo_ef_current =
     \<lparr>ef_Name = ''htnn-h-example.com'', ef_Namespace = ''istio-system'',
      ef_Labels = owner_labels, ef_ResourceVersion = ''9'', ef_Spec = [''v1'']\<rparr>"

definition demo_ef_squat :: EnvoyFilter where
  "demo_ef_squat =
     \<lparr>ef_Name = ''htnn-h-example.com'', ef_Namespace = ''istio-system'',
      ef_Labels = [], ef_ResourceVersion = ''5'', ef_Spec = [''v1'']\<rparr>"

definition demo_desired :: "string \<Rightarrow> EnvoyFilterSpec \<Rightarrow> EnvoyFilter" where
  "demo_desired name spec =
     \<lparr>ef_Name = name, ef_Namespace = [], ef_Labels = [], ef_ResourceVersion = [],
      ef_Spec = spec\<rparr>"

definition demo_final :: FinalState where
  "demo_final =
     \<lparr>fs_EnvoyFilters =
        [(''htnn-h-example.com'', demo_desired ''htnn-h-example.com'' [''v2'']),
         (''htnn-h-new.example.com'', demo_desired ''htnn-h-new.example.com'' [''n''])]\<rparr>"

definition demo_final_same :: FinalState where
  "demo_final_same =
     \<lparr>fs_EnvoyFilters =
        [(''htnn-h-example.com'', demo_desired ''htnn-h-example.com'' [''v1''])]\<rparr>"

definition demo_final_changed :: FinalState where
  "demo_final_changed =
     \<lparr>fs_EnvoyFilters =
        [(''htnn-h-example.com'', demo_desired ''htnn-h-example.com'' [''v2''])]\<rparr>"

definition demo_applier_cluster :: cluster where
  "demo_applier_cluster =
     demo_cluster\<lparr>c_envoyfilters := [demo_ef_stale, demo_ef_user, demo_ef_current]\<rparr>"

definition demo_squat_cluster :: cluster where
  "demo_squat_cluster = demo_cluster\<lparr>c_envoyfilters := [demo_ef_squat]\<rparr>"

definition demo_cluster_seen :: cluster where
  "demo_cluster_seen = demo_cluster\<lparr>c_policies := [demo_policy_seen_other_ns]\<rparr>"

text \<open>
  A list of three policies: one that targets an HTTPRoute, one with a sectionName
  that the VirtualService does not have, and the first sample policy. A VirtualService
  that names the gateways "gw" and "gw2", and clusters in which the read of "gw2"
  times out.
\<close>

definition demo_policy_route :: HTTPFilterPolicy where
  "demo_policy_route = demo_policy_other_kind\<lparr>hfp_Name := ''policy-route''\<rparr>"

definition demo_policy_foo :: HTTPFilterPolicy where
  "demo_policy_foo = demo_policy_section\<lparr>hfp_Name := ''policy-foo''\<rparr>"

definition demo_cluster_many :: cluster where
  "demo_cluster_many =
     demo_cluster\<lparr>c_policies := [demo_policy_route, demo_policy_foo, demo_policy]\<rparr>"

definition demo_vs_two :: VirtualService where
  "demo_vs_two = demo_vs\<lparr>vs_Gateways := [''gw'', ''gw2'']\<rparr>"

definition demo_gw2_key :: NamespacedName where
  "demo_gw2_key = \<lparr>nn_Namespace = ''default'', nn_Name = ''gw2''\<rparr>"

definition demo_cluster_gw2_fault :: cluster where
  "demo_cluster_gw2_fault =
     demo_cluster\<lparr>c_virtualservices := [demo_vs_two],
                  c_faults := [(GetGateway demo_gw2_key, Failure ''timeout'')]\<rparr>"

definition demo_cluster_many_gw2_fault :: cluster where
  "demo_cluster_many_gw2_fault =
     demo_cluster_many\<lparr>c_virtualservices := [demo_vs_two],
                       c_faults := [(GetGateway demo_gw2_key, Failure ''timeout'')]\<rparr>"

definition demo_cluster_many_no_gw :: cluster where
  "demo_cluster_many_no_gw = demo_cluster_many\<lparr>c_gateways := []\<rparr>"

text \<open>
  A list of two policies in which the read of the first policy's VirtualService times
  out.
\<close>

definition demo_policy_lost :: HTTPFilterPolicy where
  "demo_policy_lost =
     demo_policy\<lparr>hfp_Name := ''policy-lost'', hfp_TargetRef := demo_ref\<lparr>tr_Name := ''vs-lost''\<rparr>\<rparr>"

definition demo_cluster_earlier_fault :: cluster where
  "demo_cluster_earlier_fault =
     demo_cluster\<lparr>c_policies := [demo_policy_lost, demo_policy],
                  c_faults := [(GetVirtualService \<lparr>nn_Namespace = ''default'', nn_Name = ''vs-lost''\<rparr>,
                                Failure ''timeout'')]\<rparr>"

text \<open>
  An EnvoyFilter that carries the ownership label and the name of a desired object,
  in a namespace other than the control-plane namespace.
\<close>

definition demo_ef_elsewhere :: EnvoyFilter where
  "demo_ef_elsewhere =
     \<lparr>ef_Name = ''htnn-h-example.com'', ef_Namespace = ''default'',
      ef_Labels = owner_labels, ef_ResourceVersion = ''4'', ef_Spec = [''old'']\<rparr>"

definition demo_elsewhere_cluster :: cluster where
  "demo_elsewhere_cluster = demo_cluster\<lparr>c_envoyfilters := [demo_ef_elsewhere]\<rparr>"

definition demo_root_key :: "string \<Rightarrow> NamespacedName" where
  "demo_root_key name = \<lparr>nn_Namespace = ''istio-system'', nn_Name = name\<rparr>"

lemmas demo_defs = demo_policy_lost_def demo_cluster_earlier_fault_def
  demo_policy_route_def demo_policy_foo_def demo_cluster_many_def demo_vs_two_def demo_gw2_key_def demo_cluster_gw2_fault_def
  demo_cluster_many_gw2_fault_def demo_cluster_many_no_gw_def demo_ef_elsewhere_def demo_elsewhere_cluster_def demo_root_key_def
  demo_cluster_seen_def
  owner_labels_def demo_ef_stale_def demo_ef_user_def demo_ef_current_def demo_ef_squat_def demo_desired_def demo_final_def demo_final_same_def demo_final_changed_def demo_applier_cluster_def demo_squat_cluster_def
  demo_reconciler_three_def demo_cluster_three_def demo_cluster_list_fault_def
  demo_reconciler_def
  demo_cluster_no_gw_def demo_cluster_no_vs_def demo_cluster_vs_fault_def demo_cluster_gw_fault_def demo_policy_other_ns_def demo_policy_seen_other_ns_def
  demo_cluster_skipped_def demo_policy_other_kind_def demo_policy_section_def
  demo_env_def demo_ref_def demo_policy_def demo_vs_def demo_gw_def
  demo_cluster_def demo_state_def demo_vs_key_def demo_gw_key_def

lemmas client_defs = fault_def called_def ef_key_def has_label_def stored_def same_policy_def
  client_List_policies_def client_List_policies_by_field_def client_Get_VirtualService_def
  client_Get_Gateway_def client_List_EnvoyFilters_def client_Get_EnvoyFilter_def
  client_Delete_EnvoyFilter_def client_Create_EnvoyFilter_def client_Update_EnvoyFilter_def
  client_Status_Update_def

lemmas step_defs = policy_step_def resolve_nsName_def gateway_step_def next_policy_def
  set_final_status_def SetAccepted_def section_found_def index_append_def
  AddPolicyForVirtualService_def NewInitState_def GetObjectKey_def Let_def

lemmas vocabulary_defs = new_calls_def only_trace_grows_def reason_of_def
  targets_VirtualService_def section_ok_def skipped_gateway_def gateway_read_def
  usable_gateway_def gateway_read_fails_def reaches_gateway_loop_def labeled_def
  trace_extends_def keyed_by_name_def desired_keys_def desired_names_def labeled_names_def

lemmas function_defs = listed_def start_state_def state_at_def reaches_policy_def
  policies_after_def policyToTranslationState_def

lemmas objects_defs = labeled_objects_def desired_objects_def

section \<open>Properties of the client model and of the loops\<close>

lemma strings_Contains_slash: "strings_Contains s ''/'' = (CHR ''/'' \<in> set s)"
  by (induction s) auto

lemma only_trace_grows_refl: "only_trace_grows cl cl"
  by (simp add: only_trace_grows_def new_calls_def)

lemma only_trace_grows_append:
  "only_trace_grows cl (cl\<lparr>c_calls := c_calls cl @ cs\<rparr>)"
  by (simp add: only_trace_grows_def new_calls_def)

lemma new_calls_append: "new_calls cl (cl\<lparr>c_calls := c_calls cl @ cs\<rparr>) = cs"
  by (simp add: new_calls_def)

lemma only_trace_growsD:
  "only_trace_grows cl cl' \<Longrightarrow> cl' = cl\<lparr>c_calls := c_calls cl @ new_calls cl cl'\<rparr>"
  by (simp add: only_trace_grows_def)

lemma only_trace_grows_trans:
  assumes "only_trace_grows a b" and "only_trace_grows b c"
  shows "only_trace_grows a c \<and> new_calls a c = new_calls a b @ new_calls b c"
proof -
  have b: "b = a\<lparr>c_calls := c_calls a @ new_calls a b\<rparr>"
    using assms(1) by (rule only_trace_growsD)
  have c: "c = b\<lparr>c_calls := c_calls b @ new_calls b c\<rparr>"
    using assms(2) by (rule only_trace_growsD)
  have "c = a\<lparr>c_calls := c_calls a @ (new_calls a b @ new_calls b c)\<rparr>"
    by (subst c, subst b, subst (3) b) simp
  then show ?thesis
    using only_trace_grows_append[of a] new_calls_append[of a] by metis
qed

lemma gateway_read_calls: "gateway_read (cl\<lparr>c_calls := cs\<rparr>) vs gw = gateway_read cl vs gw"
  by (simp add: gateway_read_def client_Get_Gateway_def fault_def cong: option.case_cong)

lemma gateway_read_grown:
  "only_trace_grows cl cl' \<Longrightarrow> gateway_read cl' vs gw = gateway_read cl vs gw"
  using gateway_read_calls by (metis only_trace_growsD)

lemma usable_gateway_grown:
  "only_trace_grows cl cl' \<Longrightarrow> usable_gateway env cl' vs gw = usable_gateway env cl vs gw"
  by (simp add: usable_gateway_def gateway_read_grown)

lemma gateway_read_fails_grown:
  "only_trace_grows cl cl' \<Longrightarrow> gateway_read_fails cl' vs gw = gateway_read_fails cl vs gw"
  by (simp add: gateway_read_fails_def gateway_read_grown)


lemma gateway_step_unfold:
  "gateway_step env policy vs gw st =
     (if skipped_gateway gw then (None, st)
      else
        (case gateway_read (bs_client st) vs gw of
           Inl err \<Rightarrow>
             if IsNotFound err
             then (None, st\<lparr>bs_client := called (GetGateway \<lparr>nn_Namespace = vs_Namespace vs, nn_Name = gw\<rparr>) (bs_client st)\<rparr>)
             else (Some (ApiError err), st\<lparr>bs_client := called (GetGateway \<lparr>nn_Namespace = vs_Namespace vs, nn_Name = gw\<rparr>) (bs_client st)\<rparr>)
         | Inr gateway \<Rightarrow>
             (case ValidateGateway env gateway of
                Some err \<Rightarrow> (None, st\<lparr>bs_client := called (GetGateway \<lparr>nn_Namespace = vs_Namespace vs, nn_Name = gw\<rparr>) (bs_client st)\<rparr>)
              | None \<Rightarrow>
                  (None, st\<lparr>bs_client := called (GetGateway \<lparr>nn_Namespace = vs_Namespace vs, nn_Name = gw\<rparr>) (bs_client st),
                            bs_initState := AddPolicyForVirtualService policy vs gateway (bs_initState st),
                            bs_istioGwIdx := index_append (GetObjectKey (gw_Namespace gateway) (gw_Name gateway)) policy (bs_istioGwIdx st),
                            bs_accepted := True\<rparr>))))"
  by (simp add: gateway_step_def skipped_gateway_def strings_Contains_slash gateway_read_def
      client_Get_Gateway_def split: sum.splits option.splits)

lemma policy_step_unfold:
  "policy_step env policy st =
     (case resolve_nsName env policy of
        Inl policy' \<Rightarrow> (None, next_policy policy' st)
      | Inr nsName \<Rightarrow>
          if \<not> IsValid env policy then (None, next_policy policy st)
          else if targets_VirtualService policy then
            (case fst (client_Get_VirtualService nsName (bs_client st)) of
               Inl err \<Rightarrow>
                 if IsNotFound err
                 then (None, next_policy (SetAccepted PolicyReasonTargetNotFound [] policy)
                               (st\<lparr>bs_accepted := False,
                                   bs_client := called (GetVirtualService nsName) (bs_client st)\<rparr>))
                 else (Some (Errorf ''failed to get VirtualService'' err (Some nsName)),
                       st\<lparr>bs_accepted := False,
                          bs_client := called (GetVirtualService nsName) (bs_client st)\<rparr>)
             | Inr vs \<Rightarrow>
                 (case ValidateVirtualService env vs of
                    Some err \<Rightarrow>
                      (None, next_policy (SetAccepted PolicyReasonTargetNotFound [err] policy)
                               (st\<lparr>bs_accepted := False,
                                   bs_client := called (GetVirtualService nsName) (bs_client st)\<rparr>))
                  | None \<Rightarrow>
                      if \<not> section_ok policy vs
                      then (None, next_policy (SetAccepted PolicyReasonTargetNotFound [] policy)
                                    (st\<lparr>bs_accepted := False,
                                        bs_client := called (GetVirtualService nsName) (bs_client st)\<rparr>))
                      else
                        (case gateway_loop env policy vs (vs_Gateways vs)
                                (st\<lparr>bs_accepted := False,
                                    bs_client := called (GetVirtualService nsName) (bs_client st)\<rparr>) of
                           (Some err, st1) \<Rightarrow> (Some err, st1)
                         | (None, st1) \<Rightarrow> (None, set_final_status policy st1))))
          else (None, set_final_status policy (st\<lparr>bs_accepted := False\<rparr>)))"
  by (simp add: policy_step_def client_Get_VirtualService_def targets_VirtualService_def
      section_ok_def section_found_def Let_def split: sum.splits option.splits)


lemma gateway_step_grows:
  "only_trace_grows (bs_client st) (bs_client (snd (gateway_step env policy vs gw st)))
   \<and> list_all is_gateway_read
        (new_calls (bs_client st) (bs_client (snd (gateway_step env policy vs gw st))))
   \<and> bs_items (snd (gateway_step env policy vs gw st)) = bs_items st"
  by (simp add: gateway_step_unfold only_trace_grows_def new_calls_def called_def
      split: sum.splits option.splits)

lemma gateway_loop_grows:
  "only_trace_grows (bs_client st) (bs_client (snd (gateway_loop env policy vs gws st)))
   \<and> list_all is_gateway_read
        (new_calls (bs_client st) (bs_client (snd (gateway_loop env policy vs gws st))))
   \<and> bs_items (snd (gateway_loop env policy vs gws st)) = bs_items st"
proof (induction gws arbitrary: st)
  case Nil
  show ?case by (simp add: only_trace_grows_refl new_calls_def)
next
  case (Cons gw gws)
  obtain e st1 where r: "gateway_step env policy vs gw st = (e, st1)"
    by (cases "gateway_step env policy vs gw st")
  have s1: "only_trace_grows (bs_client st) (bs_client st1)"
    "list_all is_gateway_read (new_calls (bs_client st) (bs_client st1))"
    "bs_items st1 = bs_items st"
    using gateway_step_grows[of st env policy vs gw] by (simp_all add: r)
  show ?case
  proof (cases e)
    case (Some err)
    then show ?thesis using s1 by (simp add: r)
  next
    case None
    have l: "gateway_loop env policy vs (gw # gws) st = gateway_loop env policy vs gws st1"
      by (simp add: r None)
    from only_trace_grows_trans[OF s1(1)] Cons.IH[of st1] s1 show ?thesis
      unfolding l by simp
  qed
qed

lemma gateway_step_ok:
  assumes "\<not> gateway_read_fails (bs_client st) vs gw"
  shows "fst (gateway_step env policy vs gw st) = None \<and>
         bs_accepted (snd (gateway_step env policy vs gw st)) =
           (bs_accepted st \<or> usable_gateway env (bs_client st) vs gw)"
  using assms
  by (auto simp: gateway_step_unfold gateway_read_fails_def usable_gateway_def
      split: sum.splits option.splits)

lemma gateway_loop_ok:
  assumes "\<forall>gw\<in>set gws. \<not> gateway_read_fails (bs_client st) vs gw"
  shows "fst (gateway_loop env policy vs gws st) = None \<and>
         bs_accepted (snd (gateway_loop env policy vs gws st)) =
           (bs_accepted st \<or> (\<exists>gw\<in>set gws. usable_gateway env (bs_client st) vs gw))"
  using assms
proof (induction gws arbitrary: st)
  case Nil
  then show ?case by simp
next
  case (Cons gw gws)
  obtain e st1 where r: "gateway_step env policy vs gw st = (e, st1)"
    by (cases "gateway_step env policy vs gw st")
  have ok: "\<not> gateway_read_fails (bs_client st) vs gw" using Cons.prems by simp
  have e: "e = None" and acc: "bs_accepted st1 = (bs_accepted st \<or> usable_gateway env (bs_client st) vs gw)"
    using gateway_step_ok[OF ok, of env policy] by (simp_all add: r)
  have g: "only_trace_grows (bs_client st) (bs_client st1)"
    using gateway_step_grows[of st env policy vs gw] by (simp add: r)
  have l: "gateway_loop env policy vs (gw # gws) st = gateway_loop env policy vs gws st1"
    by (simp add: r e)
  have "\<forall>g\<in>set gws. \<not> gateway_read_fails (bs_client st1) vs g"
    using Cons.prems by (simp add: gateway_read_fails_grown[OF g])
  from Cons.IH[OF this] show ?case
    unfolding l by (auto simp: acc usable_gateway_grown[OF g])
qed



lemma reaches_gateway_loopD:
  assumes "reaches_gateway_loop env policy cl vs"
  obtains nsName where "resolve_nsName env policy = Inr nsName" "IsValid env policy"
    "targets_VirtualService policy" "fst (client_Get_VirtualService nsName cl) = Inr vs"
    "ValidateVirtualService env vs = None" "section_ok policy vs"
  using assms by (auto simp: reaches_gateway_loop_def split: sum.splits)

lemma policy_step_reaches:
  assumes "resolve_nsName env policy = Inr nsName"
    and "reaches_gateway_loop env policy (bs_client st) vs"
  shows "policy_step env policy st =
     (case gateway_loop env policy vs (vs_Gateways vs)
             (st\<lparr>bs_accepted := False,
                 bs_client := called (GetVirtualService nsName) (bs_client st)\<rparr>) of
        (Some err, st1) \<Rightarrow> (Some err, st1)
      | (None, st1) \<Rightarrow> (None, set_final_status policy st1))"
  using assms by (simp add: policy_step_unfold reaches_gateway_loop_def)


lemma policyToTranslationState_error:
  assumes "client_List_policies (r_client r) = (Inr items, cl)"
    and "fst (policies_loop env items
               \<lparr>bs_client = cl, bs_items = [], bs_initState = NewInitState,
                bs_istioGwIdx = Map.empty, bs_accepted = False\<rparr>) = Some err"
  shows "fst (policyToTranslationState env r) = (None, Some err)
         \<and> r_istioGatewayIndex (snd (snd (policyToTranslationState env r))) = r_istioGatewayIndex r"
  using assms by (auto simp: policyToTranslationState_def split: prod.splits option.splits)

lemma policies_loop_error:
  "fst (policy_step env policy st) = Some err \<Longrightarrow>
   fst (policies_loop env (policy # rest) st) = Some err"
  by (cases "policy_step env policy st") auto

lemma bs_client_next_policy: "bs_client (next_policy p st) = bs_client st"
  by (simp add: next_policy_def)

lemma bs_client_set_final_status: "bs_client (set_final_status p st) = bs_client st"
  by (simp add: set_final_status_def next_policy_def)

lemma is_gateway_read_target: "list_all is_gateway_read cs \<Longrightarrow> list_all is_target_read cs"
proof (induction cs)
  case Nil
  show ?case by simp
next
  case (Cons c cs)
  then show ?case by (cases c) simp_all
qed

lemma called_grows:
  "only_trace_grows cl (called c cl) \<and> new_calls cl (called c cl) = [c]"
  by (simp add: called_def only_trace_grows_append new_calls_append)

lemma bs_client_finish:
  "bs_client (snd (case r of (Some err, st1) \<Rightarrow> (Some err, st1)
                           | (None, st1) \<Rightarrow> (None, set_final_status policy st1)))
   = bs_client (snd r)"
  by (cases r) (simp add: bs_client_set_final_status split: option.splits)

lemma policy_step_grows:
  "only_trace_grows (bs_client st) (bs_client (snd (policy_step env policy st)))
   \<and> list_all is_target_read
        (new_calls (bs_client st) (bs_client (snd (policy_step env policy st))))"
proof -
  have loop: "only_trace_grows (bs_client st) (bs_client (snd (gateway_loop env policy vs gws
                 (st\<lparr>bs_accepted := False, bs_client := called (GetVirtualService k) (bs_client st)\<rparr>))))
     \<and> list_all is_target_read (new_calls (bs_client st) (bs_client (snd (gateway_loop env policy vs gws
                 (st\<lparr>bs_accepted := False, bs_client := called (GetVirtualService k) (bs_client st)\<rparr>)))))"
    for vs gws k
  proof -
    let ?st0 = "st\<lparr>bs_accepted := False, bs_client := called (GetVirtualService k) (bs_client st)\<rparr>"
    have a: "only_trace_grows (bs_client st) (bs_client ?st0)"
      "new_calls (bs_client st) (bs_client ?st0) = [GetVirtualService k]"
      using called_grows[of "bs_client st" "GetVirtualService k"] by simp_all
    have b: "only_trace_grows (bs_client ?st0) (bs_client (snd (gateway_loop env policy vs gws ?st0)))"
      "list_all is_target_read (new_calls (bs_client ?st0) (bs_client (snd (gateway_loop env policy vs gws ?st0))))"
      using gateway_loop_grows[of ?st0 env policy vs gws] is_gateway_read_target by blast+
    from only_trace_grows_trans[OF a(1) b(1)] a(2) b(2) show ?thesis by simp
  qed
  show ?thesis
    unfolding policy_step_unfold
    using loop called_grows[of "bs_client st"]
    by (simp add: bs_client_next_policy bs_client_set_final_status bs_client_finish
        only_trace_grows_refl split: sum.splits option.splits)
       (simp add: new_calls_def)
qed


lemma policies_loop_grows:
  "only_trace_grows (bs_client st) (bs_client (snd (policies_loop env items st)))
   \<and> list_all is_target_read
        (new_calls (bs_client st) (bs_client (snd (policies_loop env items st))))"
proof (induction items arbitrary: st)
  case Nil
  show ?case by (simp add: only_trace_grows_refl new_calls_def)
next
  case (Cons policy rest)
  obtain e st1 where r: "policy_step env policy st = (e, st1)"
    by (cases "policy_step env policy st")
  have s1: "only_trace_grows (bs_client st) (bs_client st1)"
    "list_all is_target_read (new_calls (bs_client st) (bs_client st1))"
    using policy_step_grows[of st env policy] by (simp_all add: r)
  show ?case
  proof (cases e)
    case (Some err)
    then show ?thesis using s1 by (simp add: r)
  next
    case None
    have l: "policies_loop env (policy # rest) st = policies_loop env rest st1"
      by (simp add: r None)
    from only_trace_grows_trans[OF s1(1)] Cons.IH[of st1] s1 show ?thesis
      unfolding l by simp
  qed
qed

lemma is_target_read_builder: "list_all is_target_read cs \<Longrightarrow> list_all is_builder_read cs"
proof (induction cs)
  case Nil
  show ?case by simp
next
  case (Cons c cs)
  then show ?case by (cases c) simp_all
qed

lemma is_builder_read_no_write: "list_all is_builder_read cs \<Longrightarrow> \<not> list_ex is_write cs"
proof (induction cs)
  case Nil
  show ?case by simp
next
  case (Cons c cs)
  then show ?case by (cases c) simp_all
qed

lemma policyToTranslationState_reads:
  "only_trace_grows (r_client r) (r_client (snd (snd (policyToTranslationState env r))))
   \<and> list_all is_builder_read
        (new_calls (r_client r) (r_client (snd (snd (policyToTranslationState env r)))))"
proof -
  let ?cl = "called ListHTTPFilterPolicy (r_client r)"
  have a: "only_trace_grows (r_client r) ?cl" "new_calls (r_client r) ?cl = [ListHTTPFilterPolicy]"
    using called_grows[of "r_client r" ListHTTPFilterPolicy] by simp_all
  show ?thesis
  proof (cases "fst (client_List_policies (r_client r))")
    case (Inl err)
    then have "r_client (snd (snd (policyToTranslationState env r))) = ?cl"
      by (simp add: policyToTranslationState_def client_List_policies_def split: option.splits)
    then show ?thesis using a by simp
  next
    case (Inr items)
    let ?st0 = "\<lparr>bs_client = ?cl, bs_items = [], bs_initState = NewInitState,
                 bs_istioGwIdx = Map.empty, bs_accepted = False\<rparr>"
    have c: "r_client (snd (snd (policyToTranslationState env r)))
               = bs_client (snd (policies_loop env items ?st0))"
      using Inr
      by (cases "policies_loop env items ?st0")
         (simp add: policyToTranslationState_def client_List_policies_def UpdateIndex_def
            split: option.splits)
    have b: "only_trace_grows ?cl (bs_client (snd (policies_loop env items ?st0)))"
      "list_all is_builder_read (new_calls ?cl (bs_client (snd (policies_loop env items ?st0))))"
      using policies_loop_grows[of ?st0 env items] is_target_read_builder by simp_all
    from only_trace_grows_trans[OF a(1) b(1)] a(2) b(2) show ?thesis
      unfolding c by simp
  qed
qed

lemmas indexer_defs = IstioGatewayIndexer_FindAffectedObjects_def
  VirtualServiceIndexer_FindAffectedObjects_def findAffectedObjects_def triggerReconciliation_def
  reconcileReqPlaceholder_def VirtualServiceIndexer_Index_def VirtualServiceIndexer_IndexName_def

lemma filter_empty_list_ex: "(filter P xs = []) = (\<not> list_ex P xs)"
  by (simp add: filter_empty_conv list_ex_iff)

lemma stored_None: "(stored k cl = None) = (\<forall>e\<in>set (c_envoyfilters cl). ef_key e \<noteq> k)"
  by (auto simp: stored_def find_None_iff)

lemma stored_Some: "stored k cl = Some old \<Longrightarrow> old \<in> set (c_envoyfilters cl) \<and> ef_key old = k"
  by (auto simp: stored_def find_Some_iff)

lemma stored_calls: "stored k (cl\<lparr>c_calls := cs\<rparr>) = stored k cl"
  by (simp add: stored_def)

lemma fault_calls: "fault (cl\<lparr>c_calls := cs\<rparr>) = fault cl"
  by (simp add: fault_def fun_eq_iff)

lemma owned_fields:
  "ef_Namespace (owned env d) = RootNamespace env"
  "ef_Name (owned env d) = ef_Name d"
  "ef_Spec (owned env d) = ef_Spec d"
  "ef_ResourceVersion (owned env d) = ef_ResourceVersion d"
  "labeled (owned env d)"
  by (simp_all add: owned_def labeled_def has_label_def update_Some_unfold map_of_eq_Some_iff)

lemma ef_key_rv: "ef_key (ef\<lparr>ef_ResourceVersion := v\<rparr>) = ef_key ef"
  by (simp add: ef_key_def)

lemma upsert_step_outcome:
  "(\<exists>err. fst (upsert_step env d cl) = Some err
       \<and> c_envoyfilters (snd (upsert_step env d cl)) = c_envoyfilters cl)
   \<or> (fst (upsert_step env d cl) = None
       \<and> (\<exists>old. stored (ef_key (owned env d)) cl = Some old \<and> ef_Spec old = ef_Spec d)
       \<and> snd (upsert_step env d cl) = called (GetEnvoyFilter (ef_key (owned env d))) cl)
   \<or> (fst (upsert_step env d cl) = None
       \<and> stored (ef_key (owned env d)) cl = None
       \<and> c_envoyfilters (snd (upsert_step env d cl)) = c_envoyfilters cl @ [owned env d])
   \<or> (fst (upsert_step env d cl) = None
       \<and> (\<exists>old. stored (ef_key (owned env d)) cl = Some old \<and> ef_Spec old \<noteq> ef_Spec d
            \<and> c_envoyfilters (snd (upsert_step env d cl)) =
                 map (\<lambda>e. if ef_key e = ef_key (owned env d)
                           then (owned env d)\<lparr>ef_ResourceVersion := ef_ResourceVersion old\<rparr> else e)
                   (c_envoyfilters cl)))"
  by (auto simp: upsert_step_def Let_def client_Get_EnvoyFilter_def client_Create_EnvoyFilter_def
      client_Update_EnvoyFilter_def fault_calls stored_calls ef_key_rv owned_fields called_def
      split: option.splits sum.splits if_splits api_error.splits)

lemma trace_extendsI: "c_calls cl' = c_calls cl @ cs \<Longrightarrow> trace_extends cl cl' \<and> new_calls cl cl' = cs"
  by (simp add: trace_extends_def new_calls_def)

lemma trace_extends_refl: "trace_extends cl cl \<and> new_calls cl cl = []"
  by (simp add: trace_extends_def new_calls_def)

lemma trace_extends_trans:
  assumes "trace_extends a b" and "trace_extends b c"
  shows "trace_extends a c \<and> new_calls a c = new_calls a b @ new_calls b c"
proof -
  have "c_calls c = c_calls a @ (new_calls a b @ new_calls b c)"
    using assms by (simp add: trace_extends_def)
  then show ?thesis by (rule trace_extendsI)
qed

lemma Delete_props:
  "c_calls (snd (client_Delete_EnvoyFilter d cl)) = c_calls cl @ [DeleteEnvoyFilter (ef_key d)]
   \<and> (c_envoyfilters (snd (client_Delete_EnvoyFilter d cl)) = c_envoyfilters cl
       \<or> fst (client_Delete_EnvoyFilter d cl) = None
          \<and> c_envoyfilters (snd (client_Delete_EnvoyFilter d cl))
              = filter (\<lambda>e. ef_key e \<noteq> ef_key d) (c_envoyfilters cl))
   \<and> (fst (client_Delete_EnvoyFilter d cl) = None \<longrightarrow>
        c_envoyfilters (snd (client_Delete_EnvoyFilter d cl))
              = filter (\<lambda>e. ef_key e \<noteq> ef_key d) (c_envoyfilters cl))"
  by (simp add: client_Delete_EnvoyFilter_def called_def split: option.splits)

lemma prune_loop_trace:
  "trace_extends cl (snd (prune_loop fs efs cl))
   \<and> (\<forall>c\<in>set (new_calls cl (snd (prune_loop fs efs cl))).
         \<exists>d\<in>set efs. map_of (fs_EnvoyFilters fs) (ef_Name d) = None \<and> c = DeleteEnvoyFilter (ef_key d))"
proof (induction efs arbitrary: cl)
  case Nil
  show ?case by (simp add: trace_extends_refl)
next
  case (Cons d efs)
  show ?case
  proof (cases "map_of (fs_EnvoyFilters fs) (ef_Name d)")
    case (Some x)
    then show ?thesis using Cons.IH[of cl] by auto
  next
    case None
    obtain e cl1 where r: "client_Delete_EnvoyFilter d cl = (e, cl1)"
      by (cases "client_Delete_EnvoyFilter d cl")
    have t1: "trace_extends cl cl1" "new_calls cl cl1 = [DeleteEnvoyFilter (ef_key d)]"
      using Delete_props[of d cl] trace_extendsI[of cl1 cl] by (simp_all add: r)
    show ?thesis
    proof (cases e)
      case (Some err)
      then show ?thesis using t1 None by (simp add: r)
    next
      case n: None
      have l: "prune_loop fs (d # efs) cl = prune_loop fs efs cl1"
        by (simp add: None r n)
      from trace_extends_trans[OF t1(1)] Cons.IH[of cl1] t1(2) None show ?thesis
        unfolding l by auto
    qed
  qed
qed

lemma prune_loop_store:
  "set (c_envoyfilters (snd (prune_loop fs efs cl))) \<subseteq> set (c_envoyfilters cl)
   \<and> (\<forall>e\<in>set (c_envoyfilters cl). e \<notin> set (c_envoyfilters (snd (prune_loop fs efs cl))) \<longrightarrow>
         (\<exists>d\<in>set efs. map_of (fs_EnvoyFilters fs) (ef_Name d) = None \<and> ef_key d = ef_key e))"
proof (induction efs arbitrary: cl)
  case Nil
  show ?case by simp
next
  case (Cons d efs)
  show ?case
  proof (cases "map_of (fs_EnvoyFilters fs) (ef_Name d)")
    case (Some x)
    then show ?thesis using Cons.IH[of cl] by auto
  next
    case None
    obtain e cl1 where r: "client_Delete_EnvoyFilter d cl = (e, cl1)"
      by (cases "client_Delete_EnvoyFilter d cl")
    have s1: "c_envoyfilters cl1 = c_envoyfilters cl
              \<or> c_envoyfilters cl1 = filter (\<lambda>e. ef_key e \<noteq> ef_key d) (c_envoyfilters cl)"
      using Delete_props[of d cl] by (auto simp: r)
    show ?thesis
    proof (cases e)
      case (Some err)
      then show ?thesis using s1 None by (auto simp: r)
    next
      case n: None
      have l: "prune_loop fs (d # efs) cl = prune_loop fs efs cl1"
        by (simp add: None r n)
      from Cons.IH[of cl1] s1 None show ?thesis
        unfolding l by (auto; blast)
    qed
  qed
qed

lemma prune_loop_success:
  "fst (prune_loop fs efs cl) = None \<Longrightarrow>
   \<forall>d\<in>set efs. map_of (fs_EnvoyFilters fs) (ef_Name d) = None \<longrightarrow>
     DeleteEnvoyFilter (ef_key d) \<in> set (new_calls cl (snd (prune_loop fs efs cl)))
     \<and> (\<forall>e\<in>set (c_envoyfilters (snd (prune_loop fs efs cl))). ef_key e \<noteq> ef_key d)"
proof (induction efs arbitrary: cl)
  case Nil
  show ?case by simp
next
  case (Cons d efs)
  show ?case
  proof (cases "map_of (fs_EnvoyFilters fs) (ef_Name d)")
    case (Some x)
    then show ?thesis using Cons.IH[of cl] Cons.prems by auto
  next
    case None
    obtain e cl1 where r: "client_Delete_EnvoyFilter d cl = (e, cl1)"
      by (cases "client_Delete_EnvoyFilter d cl")
    have e: "e = None" using Cons.prems None r by (cases e) auto
    have l: "prune_loop fs (d # efs) cl = prune_loop fs efs cl1"
      by (simp add: None r e)
    have t1: "trace_extends cl cl1" "new_calls cl cl1 = [DeleteEnvoyFilter (ef_key d)]"
      using Delete_props[of d cl] trace_extendsI[of cl1 cl] by (simp_all add: r)
    have s1: "c_envoyfilters cl1 = filter (\<lambda>e. ef_key e \<noteq> ef_key d) (c_envoyfilters cl)"
      using Delete_props[of d cl] by (simp add: r e)
    have sub: "set (c_envoyfilters (snd (prune_loop fs efs cl1))) \<subseteq> set (c_envoyfilters cl1)"
      using prune_loop_store[of fs efs cl1] by simp
    have t2: "trace_extends cl1 (snd (prune_loop fs efs cl1))"
      using prune_loop_trace[of cl1 fs efs] by simp
    have nc: "new_calls cl (snd (prune_loop fs efs cl1))
               = DeleteEnvoyFilter (ef_key d) # new_calls cl1 (snd (prune_loop fs efs cl1))"
      using trace_extends_trans[OF t1(1) t2] t1(2) by simp
    have ih: "\<forall>d\<in>set efs. map_of (fs_EnvoyFilters fs) (ef_Name d) = None \<longrightarrow>
       DeleteEnvoyFilter (ef_key d) \<in> set (new_calls cl1 (snd (prune_loop fs efs cl1)))
       \<and> (\<forall>e\<in>set (c_envoyfilters (snd (prune_loop fs efs cl1))). ef_key e \<noteq> ef_key d)"
      using Cons.IH[of cl1] Cons.prems l by simp
    show ?thesis
      unfolding l nc using ih sub s1 by auto
  qed
qed

lemma upsert_step_trace:
  "trace_extends cl (snd (upsert_step env d cl))
   \<and> GetEnvoyFilter (ef_key (owned env d)) \<in> set (new_calls cl (snd (upsert_step env d cl)))
   \<and> \<not> list_ex is_delete (new_calls cl (snd (upsert_step env d cl)))"
  by (simp add: upsert_step_def Let_def client_Get_EnvoyFilter_def client_Create_EnvoyFilter_def
      client_Update_EnvoyFilter_def called_def trace_extends_def new_calls_def
      split: option.splits sum.splits)

lemma labeled_rv: "labeled (ef\<lparr>ef_ResourceVersion := v\<rparr>) = labeled ef"
  by (simp add: labeled_def has_label_def)

lemma upsert_step_sets:
  "(\<forall>e\<in>set (c_envoyfilters cl). ef_key e \<noteq> ef_key (owned env d) \<longrightarrow>
       e \<in> set (c_envoyfilters (snd (upsert_step env d cl))))
   \<and> (\<forall>e\<in>set (c_envoyfilters cl). \<exists>e'\<in>set (c_envoyfilters (snd (upsert_step env d cl))).
         ef_key e' = ef_key e \<and> (labeled e \<longrightarrow> labeled e'))
   \<and> (\<forall>e'\<in>set (c_envoyfilters (snd (upsert_step env d cl))).
         e' \<in> set (c_envoyfilters cl)
         \<or> (labeled e' \<and> ef_key e' = ef_key (owned env d) \<and> ef_Spec e' = ef_Spec d))
   \<and> (fst (upsert_step env d cl) = None \<longrightarrow>
        (\<exists>e'\<in>set (c_envoyfilters (snd (upsert_step env d cl))).
           ef_key e' = ef_key (owned env d) \<and> ef_Spec e' = ef_Spec d
           \<and> (labeled e' \<or> e' \<in> set (c_envoyfilters cl))))"
proof -
  let ?k = "ef_key (owned env d)"
  let ?r = "upsert_step env d cl"
  consider
    (same) "c_envoyfilters (snd ?r) = c_envoyfilters cl"
      "fst ?r = None \<longrightarrow> (\<exists>old. stored ?k cl = Some old \<and> ef_Spec old = ef_Spec d)"
  | (created) "fst ?r = None" "stored ?k cl = None"
      "c_envoyfilters (snd ?r) = c_envoyfilters cl @ [owned env d]"
  | (updated) old where "fst ?r = None" "stored ?k cl = Some old"
      "c_envoyfilters (snd ?r) =
         map (\<lambda>e. if ef_key e = ?k
                   then (owned env d)\<lparr>ef_ResourceVersion := ef_ResourceVersion old\<rparr> else e)
           (c_envoyfilters cl)"
    using upsert_step_outcome[of env d cl] by (auto simp: called_def)
  then show ?thesis
  proof cases
    case same
    then show ?thesis by (auto dest: stored_Some)
  next
    case created
    then show ?thesis by (auto simp: owned_fields)
  next
    case (updated old)
    have old: "old \<in> set (c_envoyfilters cl)" "ef_key old = ?k"
      using stored_Some[OF updated(2)] by simp_all
    let ?new = "(owned env d)\<lparr>ef_ResourceVersion := ef_ResourceVersion old\<rparr>"
    have new: "labeled ?new" "ef_key ?new = ?k" "ef_Spec ?new = ef_Spec d"
      by (simp_all add: labeled_rv ef_key_rv owned_fields)
    have in_new: "?new \<in> set (c_envoyfilters (snd ?r))"
      unfolding updated(3) using old by (auto simp: image_iff intro!: bexI[of _ old])
    have a: "\<forall>e\<in>set (c_envoyfilters cl). ef_key e \<noteq> ?k \<longrightarrow> e \<in> set (c_envoyfilters (snd ?r))"
      unfolding updated(3) by (auto simp: image_iff)
    have b: "\<forall>e\<in>set (c_envoyfilters cl). \<exists>e'\<in>set (c_envoyfilters (snd ?r)).
         ef_key e' = ef_key e \<and> (labeled e \<longrightarrow> labeled e')"
    proof
      fix e assume e: "e \<in> set (c_envoyfilters cl)"
      show "\<exists>e'\<in>set (c_envoyfilters (snd ?r)). ef_key e' = ef_key e \<and> (labeled e \<longrightarrow> labeled e')"
      proof (cases "ef_key e = ?k")
        case True
        then show ?thesis using in_new new by auto
      next
        case False
        then show ?thesis using a e by auto
      qed
    qed
    have c: "\<forall>e'\<in>set (c_envoyfilters (snd ?r)).
         e' \<in> set (c_envoyfilters cl)
         \<or> (labeled e' \<and> ef_key e' = ?k \<and> ef_Spec e' = ef_Spec d)"
      unfolding updated(3) using new by auto
    show ?thesis using a b c in_new new by blast
  qed
qed

lemma upsert_loop_trace:
  "trace_extends cl (snd (upsert_loop env ds cl))
   \<and> \<not> list_ex is_delete (new_calls cl (snd (upsert_loop env ds cl)))
   \<and> (fst (upsert_loop env ds cl) = None \<longrightarrow>
        (\<forall>d\<in>set ds. GetEnvoyFilter (ef_key (owned env d))
                        \<in> set (new_calls cl (snd (upsert_loop env ds cl)))))"
proof (induction ds arbitrary: cl)
  case Nil
  show ?case by (simp add: trace_extends_refl)
next
  case (Cons d ds)
  obtain e cl1 where r: "upsert_step env d cl = (e, cl1)"
    by (cases "upsert_step env d cl")
  have t1: "trace_extends cl cl1"
    "GetEnvoyFilter (ef_key (owned env d)) \<in> set (new_calls cl cl1)"
    "\<not> list_ex is_delete (new_calls cl cl1)"
    using upsert_step_trace[of cl env d] by (simp_all add: r)
  show ?case
  proof (cases e)
    case (Some err)
    then show ?thesis using t1 by (simp add: r)
  next
    case None
    have l: "upsert_loop env (d # ds) cl = upsert_loop env ds cl1"
      by (simp add: r None)
    from trace_extends_trans[OF t1(1)] Cons.IH[of cl1] t1 show ?thesis
      unfolding l by auto
  qed
qed

lemma upsert_loop_sets:
  "(\<forall>e\<in>set (c_envoyfilters cl). ef_key e \<notin> (\<lambda>d. ef_key (owned env d)) ` set ds \<longrightarrow>
       e \<in> set (c_envoyfilters (snd (upsert_loop env ds cl))))
   \<and> (\<forall>e\<in>set (c_envoyfilters cl). \<exists>e'\<in>set (c_envoyfilters (snd (upsert_loop env ds cl))).
         ef_key e' = ef_key e \<and> (labeled e \<longrightarrow> labeled e'))
   \<and> (\<forall>e'\<in>set (c_envoyfilters (snd (upsert_loop env ds cl))).
         e' \<in> set (c_envoyfilters cl)
         \<or> (labeled e' \<and> (\<exists>d\<in>set ds. ef_key e' = ef_key (owned env d) \<and> ef_Spec e' = ef_Spec d)))"
proof (induction ds arbitrary: cl)
  case Nil
  show ?case by auto
next
  case (Cons d ds)
  obtain e cl1 where r: "upsert_step env d cl = (e, cl1)"
    by (cases "upsert_step env d cl")
  note s = upsert_step_sets[of cl env d, unfolded r snd_conv fst_conv]
  show ?case
  proof (cases e)
    case (Some err)
    have l: "upsert_loop env (d # ds) cl = (Some err, cl1)"
      by (simp add: r Some)
    have a: "\<forall>e\<in>set (c_envoyfilters cl). ef_key e \<notin> (\<lambda>d. ef_key (owned env d)) ` set (d # ds) \<longrightarrow>
       e \<in> set (c_envoyfilters cl1)"
      using s by simp
    have c: "\<forall>e'\<in>set (c_envoyfilters cl1).
         e' \<in> set (c_envoyfilters cl)
         \<or> (labeled e' \<and> (\<exists>d\<in>set (d # ds). ef_key e' = ef_key (owned env d) \<and> ef_Spec e' = ef_Spec d))"
    proof
      fix z assume "z \<in> set (c_envoyfilters cl1)"
      then have "z \<in> set (c_envoyfilters cl)
         \<or> (labeled z \<and> ef_key z = ef_key (owned env d) \<and> ef_Spec z = ef_Spec d)"
        using s by blast
      then show "z \<in> set (c_envoyfilters cl)
         \<or> (labeled z \<and> (\<exists>d\<in>set (d # ds). ef_key z = ef_key (owned env d) \<and> ef_Spec z = ef_Spec d))"
        by auto
    qed
    show ?thesis unfolding l snd_conv using a s c by blast
  next
    case None
    have l: "upsert_loop env (d # ds) cl = upsert_loop env ds cl1"
      by (simp add: r None)
    note ih = Cons.IH[of cl1]
    have a: "\<forall>e\<in>set (c_envoyfilters cl). ef_key e \<notin> (\<lambda>d. ef_key (owned env d)) ` set (d # ds) \<longrightarrow>
       e \<in> set (c_envoyfilters (snd (upsert_loop env ds cl1)))"
      using s ih by auto
    have b: "\<forall>e\<in>set (c_envoyfilters cl). \<exists>e'\<in>set (c_envoyfilters (snd (upsert_loop env ds cl1))).
         ef_key e' = ef_key e \<and> (labeled e \<longrightarrow> labeled e')"
    proof
      fix x assume "x \<in> set (c_envoyfilters cl)"
      then obtain y where y: "y \<in> set (c_envoyfilters cl1)" "ef_key y = ef_key x" "labeled x \<longrightarrow> labeled y"
        using s by blast
      then obtain z where "z \<in> set (c_envoyfilters (snd (upsert_loop env ds cl1)))"
        "ef_key z = ef_key y" "labeled y \<longrightarrow> labeled z"
        using ih by blast
      then show "\<exists>e'\<in>set (c_envoyfilters (snd (upsert_loop env ds cl1))).
         ef_key e' = ef_key x \<and> (labeled x \<longrightarrow> labeled e')"
        using y by auto
    qed
    have c: "\<forall>e'\<in>set (c_envoyfilters (snd (upsert_loop env ds cl1))).
         e' \<in> set (c_envoyfilters cl)
         \<or> (labeled e' \<and> (\<exists>d\<in>set (d # ds). ef_key e' = ef_key (owned env d) \<and> ef_Spec e' = ef_Spec d))"
    proof
      fix z assume z: "z \<in> set (c_envoyfilters (snd (upsert_loop env ds cl1)))"
      then consider "z \<in> set (c_envoyfilters cl1)"
        | "labeled z \<and> (\<exists>d\<in>set ds. ef_key z = ef_key (owned env d) \<and> ef_Spec z = ef_Spec d)"
        using ih by blast
      then show "z \<in> set (c_envoyfilters cl)
         \<or> (labeled z \<and> (\<exists>d\<in>set (d # ds). ef_key z = ef_key (owned env d) \<and> ef_Spec z = ef_Spec d))"
      proof cases
        case 1
        then show ?thesis using s by auto
      next
        case 2
        then show ?thesis by auto
      qed
    qed
    show ?thesis unfolding l using a b c by blast
  qed
qed

lemma ef_key_name: "ef_key a = ef_key b \<Longrightarrow> ef_Name a = ef_Name b"
  by (simp add: ef_key_def)

lemma applier_cases:
  fixes env finalState cl
  defines "cl0 \<equiv> called (ListEnvoyFilterByLabel LabelCreatedBy ''HTTPFilterPolicy'') cl"
  defines "efs \<equiv> filter labeled (c_envoyfilters cl)"
  obtains (list_failed) err where
      "translationStateToCustomResource env finalState cl = (Some err, cl0)"
    | (prune_failed) err where
      "fst (prune_loop finalState efs cl0) = Some err"
      "translationStateToCustomResource env finalState cl = prune_loop finalState efs cl0"
    | (pruned)
      "fst (prune_loop finalState efs cl0) = None"
      "translationStateToCustomResource env finalState cl =
         upsert_loop env (map snd (fs_EnvoyFilters finalState)) (snd (prune_loop finalState efs cl0))"
proof (cases "fault cl (ListEnvoyFilterByLabel LabelCreatedBy ''HTTPFilterPolicy'')")
  case (Some e)
  then have "translationStateToCustomResource env finalState cl
              = (Some (Errorf ''failed to list EnvoyFilter'' e None), cl0)"
    by (simp add: translationStateToCustomResource_def client_List_EnvoyFilters_def cl0_def)
  then show ?thesis by (rule list_failed)
next
  case None
  have l: "client_List_EnvoyFilters LabelCreatedBy ''HTTPFilterPolicy'' cl = (Inr efs, cl0)"
    using None by (simp add: client_List_EnvoyFilters_def cl0_def efs_def labeled_def fun_eq_iff
        cong: filter_cong)
  obtain e cl1 where p: "prune_loop finalState efs cl0 = (e, cl1)"
    by (cases "prune_loop finalState efs cl0")
  show ?thesis
  proof (cases e)
    case (Some err)
    have "translationStateToCustomResource env finalState cl = prune_loop finalState efs cl0"
      by (simp add: translationStateToCustomResource_def l p Some)
    then show ?thesis using prune_failed[of err] p Some by simp
  next
    case n: None
    have "translationStateToCustomResource env finalState cl =
         upsert_loop env (map snd (fs_EnvoyFilters finalState)) (snd (prune_loop finalState efs cl0))"
      by (simp add: translationStateToCustomResource_def l p n)
    then show ?thesis using pruned p n by simp
  qed
qed


lemma called_store: "c_envoyfilters (called c cl) = c_envoyfilters cl"
  by (simp add: called_def)

lemma called_trace: "trace_extends cl (called c cl) \<and> new_calls cl (called c cl) = [c]"
  by (rule trace_extendsI) (simp add: called_def)

lemma applier_deletes_labeled:
  "trace_extends cl (snd (translationStateToCustomResource env finalState cl))
   \<and> (\<forall>k. DeleteEnvoyFilter k
             \<in> set (new_calls cl (snd (translationStateToCustomResource env finalState cl))) \<longrightarrow>
         (\<exists>e\<in>set (c_envoyfilters cl). labeled e \<and> ef_key e = k
             \<and> map_of (fs_EnvoyFilters finalState) (ef_Name e) = None))"
proof -
  let ?L = "ListEnvoyFilterByLabel LabelCreatedBy ''HTTPFilterPolicy''"
  let ?cl0 = "called ?L cl"
  let ?efs = "filter labeled (c_envoyfilters cl)"
  let ?p = "prune_loop finalState ?efs ?cl0"
  let ?r = "translationStateToCustomResource env finalState cl"
  have t0: "trace_extends cl ?cl0" "new_calls cl ?cl0 = [?L]"
    using called_trace[of cl ?L] by simp_all
  have tp: "trace_extends ?cl0 (snd ?p)"
    and dp: "\<forall>c\<in>set (new_calls ?cl0 (snd ?p)).
         \<exists>d\<in>set ?efs. map_of (fs_EnvoyFilters finalState) (ef_Name d) = None
                        \<and> c = DeleteEnvoyFilter (ef_key d)"
    using prune_loop_trace[of ?cl0 finalState ?efs] by simp_all
  have t1: "trace_extends cl (snd ?p)" "new_calls cl (snd ?p) = ?L # new_calls ?cl0 (snd ?p)"
    using trace_extends_trans[OF t0(1) tp] t0(2) by simp_all
  have del1: "\<forall>k. DeleteEnvoyFilter k \<in> set (new_calls cl (snd ?p)) \<longrightarrow>
         (\<exists>e\<in>set (c_envoyfilters cl). labeled e \<and> ef_key e = k
             \<and> map_of (fs_EnvoyFilters finalState) (ef_Name e) = None)"
  proof (intro allI impI)
    fix k assume "DeleteEnvoyFilter k \<in> set (new_calls cl (snd ?p))"
    then have "DeleteEnvoyFilter k \<in> set (new_calls ?cl0 (snd ?p))"
      unfolding t1(2) by simp
    then obtain d where "d \<in> set ?efs" "map_of (fs_EnvoyFilters finalState) (ef_Name d) = None"
      "DeleteEnvoyFilter k = DeleteEnvoyFilter (ef_key d)"
      using dp by blast
    then show "\<exists>e\<in>set (c_envoyfilters cl). labeled e \<and> ef_key e = k
             \<and> map_of (fs_EnvoyFilters finalState) (ef_Name e) = None"
      by auto
  qed
  show ?thesis
  proof (cases rule: applier_cases[of env finalState cl])
    case (list_failed err)
    show ?thesis unfolding list_failed snd_conv using t0 by simp
  next
    case (prune_failed err)
    show ?thesis unfolding prune_failed(2) using t1(1) del1 by simp
  next
    case pruned
    let ?u = "upsert_loop env (map snd (fs_EnvoyFilters finalState)) (snd ?p)"
    have tu: "trace_extends (snd ?p) (snd ?u)"
      and nd: "\<not> list_ex is_delete (new_calls (snd ?p) (snd ?u))"
      using upsert_loop_trace[of "snd ?p" env "map snd (fs_EnvoyFilters finalState)"] by simp_all
    have t2: "trace_extends cl (snd ?u)"
      "new_calls cl (snd ?u) = new_calls cl (snd ?p) @ new_calls (snd ?p) (snd ?u)"
      using trace_extends_trans[OF t1(1) tu] by simp_all
    have "\<forall>k. DeleteEnvoyFilter k \<in> set (new_calls cl (snd ?u)) \<longrightarrow>
            DeleteEnvoyFilter k \<in> set (new_calls cl (snd ?p))"
    proof (intro allI impI)
      fix k assume a: "DeleteEnvoyFilter k \<in> set (new_calls cl (snd ?u))"
      have "DeleteEnvoyFilter k \<notin> set (new_calls (snd ?p) (snd ?u))"
      proof
        assume "DeleteEnvoyFilter k \<in> set (new_calls (snd ?p) (snd ?u))"
        then have "list_ex is_delete (new_calls (snd ?p) (snd ?u))"
          unfolding list_ex_iff by (intro bexI[of _ "DeleteEnvoyFilter k"]) simp_all
        then show False using nd by simp
      qed
      then show "DeleteEnvoyFilter k \<in> set (new_calls cl (snd ?p))"
        using a unfolding t2(2) by simp
    qed
    then show ?thesis unfolding pruned(2) using t2(1) del1 by blast
  qed
qed


lemma prune_keeps_unlabeled:
  assumes "distinct (map ef_key (c_envoyfilters cl))"
    and "e \<in> set (c_envoyfilters cl)" and "\<not> labeled e"
  shows "e \<in> set (c_envoyfilters (snd (prune_loop finalState (filter labeled (c_envoyfilters cl))
                                        (called c cl))))"
proof (rule ccontr)
  let ?efs = "filter labeled (c_envoyfilters cl)"
  assume n: "e \<notin> set (c_envoyfilters (snd (prune_loop finalState ?efs (called c cl))))"
  have "e \<in> set (c_envoyfilters (called c cl))"
    using assms(2) by (simp add: called_store)
  then obtain d where d: "d \<in> set ?efs" "ef_key d = ef_key e"
    using prune_loop_store[of finalState ?efs "called c cl"] n by blast
  have "inj_on ef_key (set (c_envoyfilters cl))"
    using assms(1) by (simp add: distinct_map)
  then have "d = e"
    using d assms(2) by (auto dest: inj_onD)
  then show False using d(1) assms(3) by simp
qed

lemma applier_keeps_unlabeled:
  assumes "distinct (map ef_key (c_envoyfilters cl))"
    and "e \<in> set (c_envoyfilters cl)" and "\<not> labeled e"
  shows "(\<exists>e'\<in>set (c_envoyfilters (snd (translationStateToCustomResource env finalState cl))).
            ef_key e' = ef_key e)
         \<and> (ef_key e \<notin> set (desired_keys env finalState) \<longrightarrow>
              e \<in> set (c_envoyfilters (snd (translationStateToCustomResource env finalState cl))))"
proof -
  let ?L = "ListEnvoyFilterByLabel LabelCreatedBy ''HTTPFilterPolicy''"
  let ?p = "prune_loop finalState (filter labeled (c_envoyfilters cl)) (called ?L cl)"
  have e1: "e \<in> set (c_envoyfilters (snd ?p))"
    using prune_keeps_unlabeled[OF assms, of finalState ?L] .
  show ?thesis
  proof (cases rule: applier_cases[of env finalState cl])
    case (list_failed err)
    show ?thesis unfolding list_failed snd_conv using assms(2) by (auto simp: called_store)
  next
    case (prune_failed err)
    show ?thesis unfolding prune_failed(2) using e1 by auto
  next
    case pruned
    let ?ds = "map snd (fs_EnvoyFilters finalState)"
    note u = upsert_loop_sets[of "snd ?p" env ?ds]
    have k: "(\<lambda>d. ef_key (owned env d)) ` set ?ds = set (desired_keys env finalState)"
      by (simp add: desired_keys_def image_image)
    have a: "\<exists>e'\<in>set (c_envoyfilters (snd (upsert_loop env ?ds (snd ?p)))). ef_key e' = ef_key e"
      using u e1 by blast
    have b: "ef_key e \<notin> set (desired_keys env finalState) \<longrightarrow>
              e \<in> set (c_envoyfilters (snd (upsert_loop env ?ds (snd ?p))))"
      using u e1 unfolding k by blast
    show ?thesis unfolding pruned(2) using a b by simp
  qed
qed

lemma keyed_by_nameD:
  "keyed_by_name finalState \<Longrightarrow> d \<in> set (map snd (fs_EnvoyFilters finalState)) \<Longrightarrow>
   map_of (fs_EnvoyFilters finalState) (ef_Name d) \<noteq> None"
proof -
  assume k: "keyed_by_name finalState" and d: "d \<in> set (map snd (fs_EnvoyFilters finalState))"
  then obtain n where n: "(n, d) \<in> set (fs_EnvoyFilters finalState)" by auto
  then have "ef_Name d = n" using k by (auto simp: keyed_by_name_def list_all_iff)
  then have "ef_Name d \<in> fst ` set (fs_EnvoyFilters finalState)"
    using n by (auto simp: image_iff intro!: bexI[of _ "(n, d)"])
  then show ?thesis by (simp add: map_of_eq_None_iff)
qed

lemma applier_prunes:
  assumes "fst (translationStateToCustomResource env finalState cl) = None"
    and "e \<in> set (c_envoyfilters cl)" and "labeled e"
    and "map_of (fs_EnvoyFilters finalState) (ef_Name e) = None"
  shows "DeleteEnvoyFilter (ef_key e)
           \<in> set (new_calls cl (snd (translationStateToCustomResource env finalState cl)))
         \<and> (keyed_by_name finalState \<longrightarrow>
              (\<forall>z\<in>set (c_envoyfilters (snd (translationStateToCustomResource env finalState cl))).
                 ef_key z \<noteq> ef_key e))"
proof -
  let ?L = "ListEnvoyFilterByLabel LabelCreatedBy ''HTTPFilterPolicy''"
  let ?cl0 = "called ?L cl"
  let ?efs = "filter labeled (c_envoyfilters cl)"
  let ?p = "prune_loop finalState ?efs ?cl0"
  let ?ds = "map snd (fs_EnvoyFilters finalState)"
  let ?u = "upsert_loop env ?ds (snd ?p)"
  show ?thesis
  proof (cases rule: applier_cases[of env finalState cl])
    case (list_failed err)
    then show ?thesis using assms(1) by simp
  next
    case (prune_failed err)
    then show ?thesis using assms(1) by simp
  next
    case pruned
    have e: "e \<in> set ?efs" using assms(2,3) by simp
    note ps = prune_loop_success[OF pruned(1), rule_format, OF e assms(4)]
    have t0: "trace_extends cl ?cl0" using called_trace[of cl ?L] by simp
    have tp: "trace_extends ?cl0 (snd ?p)"
      using prune_loop_trace[of ?cl0 finalState ?efs] by simp
    have tu: "trace_extends (snd ?p) (snd ?u)"
      using upsert_loop_trace[of "snd ?p" env ?ds] by simp
    have n1: "new_calls cl (snd ?p) = new_calls cl ?cl0 @ new_calls ?cl0 (snd ?p)"
      and t1: "trace_extends cl (snd ?p)"
      using trace_extends_trans[OF t0 tp] by simp_all
    have n2: "new_calls cl (snd ?u) = new_calls cl (snd ?p) @ new_calls (snd ?p) (snd ?u)"
      using trace_extends_trans[OF t1 tu] by simp
    have a: "DeleteEnvoyFilter (ef_key e) \<in> set (new_calls cl (snd ?u))"
      unfolding n2 n1 using ps by simp
    have b: "keyed_by_name finalState \<longrightarrow>
               (\<forall>z\<in>set (c_envoyfilters (snd ?u)). ef_key z \<noteq> ef_key e)"
    proof (intro impI ballI notI)
      fix z assume k: "keyed_by_name finalState" and z: "z \<in> set (c_envoyfilters (snd ?u))"
        and ze: "ef_key z = ef_key e"
      from upsert_loop_sets[of "snd ?p" env ?ds] z
      consider "z \<in> set (c_envoyfilters (snd ?p))"
        | d where "d \<in> set ?ds" "ef_key z = ef_key (owned env d)"
        by blast
      then show False
      proof cases
        case 1
        then show ?thesis using ps ze by blast
      next
        case 2
        have "ef_Name e = ef_Name (owned env d)"
          using ef_key_name[of z e] ef_key_name[of z "owned env d"] ze 2(2) by simp
        then have "ef_Name e = ef_Name d" by (simp add: owned_fields)
        then show ?thesis using keyed_by_nameD[OF k 2(1)] assms(4) by simp
      qed
    qed
    show ?thesis unfolding pruned(2) using a b by simp
  qed
qed


lemmas applier_defs = translationStateToCustomResource_def upsert_step_def owned_def
  LabelCreatedBy_def

lemma applier_visits:
  assumes "fst (translationStateToCustomResource env finalState cl) = None"
    and "d \<in> set (map snd (fs_EnvoyFilters finalState))"
  shows "GetEnvoyFilter (ef_key (owned env d))
           \<in> set (new_calls cl (snd (translationStateToCustomResource env finalState cl)))"
proof -
  let ?L = "ListEnvoyFilterByLabel LabelCreatedBy ''HTTPFilterPolicy''"
  let ?cl0 = "called ?L cl"
  let ?efs = "filter labeled (c_envoyfilters cl)"
  let ?p = "prune_loop finalState ?efs ?cl0"
  let ?ds = "map snd (fs_EnvoyFilters finalState)"
  let ?u = "upsert_loop env ?ds (snd ?p)"
  show ?thesis
  proof (cases rule: applier_cases[of env finalState cl])
    case (list_failed err)
    then show ?thesis using assms(1) by simp
  next
    case (prune_failed err)
    then show ?thesis using assms(1) by simp
  next
    case pruned
    have uok: "fst ?u = None" using assms(1) unfolding pruned(2) .
    have t0: "trace_extends cl ?cl0" using called_trace[of cl ?L] by simp
    have tp: "trace_extends ?cl0 (snd ?p)"
      using prune_loop_trace[of ?cl0 finalState ?efs] by simp
    have tu: "trace_extends (snd ?p) (snd ?u)"
      and v: "\<forall>d\<in>set ?ds. GetEnvoyFilter (ef_key (owned env d)) \<in> set (new_calls (snd ?p) (snd ?u))"
      using upsert_loop_trace[of "snd ?p" env ?ds] uok by simp_all
    have t1: "trace_extends cl (snd ?p)"
      using trace_extends_trans[OF t0 tp] by simp
    have n2: "new_calls cl (snd ?u) = new_calls cl (snd ?p) @ new_calls (snd ?p) (snd ?u)"
      using trace_extends_trans[OF t1 tu] by simp
    have "GetEnvoyFilter (ef_key (owned env d)) \<in> set (new_calls (snd ?p) (snd ?u))"
      using v assms(2) by blast
    then show ?thesis unfolding pruned(2) n2 by simp
  qed
qed

subsection \<open>The list of policies as the function leaves it\<close>

lemma policies_loop_append:
  "policies_loop env (xs @ ys) st =
     (case policies_loop env xs st of
        (Some err, st') \<Rightarrow> (Some err, st')
      | (None, st') \<Rightarrow> policies_loop env ys st')"
proof (induction xs arbitrary: st)
  case Nil
  show ?case by simp
next
  case (Cons x xs)
  obtain e st1 where r: "policy_step env x st = (e, st1)"
    by (cases "policy_step env x st")
  show ?case
  proof (cases e)
    case None
    then show ?thesis using Cons.IH[of st1] by (simp add: r)
  next
    case (Some err)
    then show ?thesis by (simp add: r)
  qed
qed

lemma finish_fst:
  "fst (case r of (Some err, st1) \<Rightarrow> (Some err, st1)
                | (None, st1) \<Rightarrow> (None, set_final_status policy st1)) = fst r"
  by (cases r) (simp split: option.splits)

lemma gateway_loop_items:
  "bs_items (snd (gateway_loop env policy vs gws st)) = bs_items st"
  using gateway_loop_grows[of st env policy vs gws] by simp

lemma policy_step_items:
  "(fst (policy_step env policy st) = None \<longrightarrow>
      (\<exists>p'. bs_items (snd (policy_step env policy st)) = bs_items st @ [p']))
   \<and> (fst (policy_step env policy st) \<noteq> None \<longrightarrow>
      bs_items (snd (policy_step env policy st)) = bs_items st)"
proof -
  have ok: "\<And>p s. \<lbrakk>policy_step env policy st = (None, next_policy p s); bs_items s = bs_items st\<rbrakk>
             \<Longrightarrow> ?thesis"
    by (simp add: next_policy_def)
  have fin: "\<And>s. \<lbrakk>policy_step env policy st = (None, set_final_status policy s);
                  bs_items s = bs_items st\<rbrakk> \<Longrightarrow> ?thesis"
    by (simp add: set_final_status_def next_policy_def)
  have bad: "\<And>e s. \<lbrakk>policy_step env policy st = (Some e, s); bs_items s = bs_items st\<rbrakk>
             \<Longrightarrow> ?thesis"
    by simp
  show ?thesis
  proof (cases "resolve_nsName env policy")
    case (Inl p')
    then have "policy_step env policy st = (None, next_policy p' st)"
      by (simp add: policy_step_unfold)
    then show ?thesis by (rule ok) simp
  next
    case (Inr nsName)
    let ?st0 = "st\<lparr>bs_accepted := False,
                   bs_client := called (GetVirtualService nsName) (bs_client st)\<rparr>"
    show ?thesis
    proof (cases "IsValid env policy")
      case False
      then have "policy_step env policy st = (None, next_policy policy st)"
        using Inr by (simp add: policy_step_unfold)
      then show ?thesis by (rule ok) simp
    next
      case valid: True
      show ?thesis
      proof (cases "targets_VirtualService policy")
        case False
        then have "policy_step env policy st
                    = (None, set_final_status policy (st\<lparr>bs_accepted := False\<rparr>))"
          using Inr valid by (simp add: policy_step_unfold)
        then show ?thesis by (rule fin) simp
      next
        case tv: True
        show ?thesis
        proof (cases "fst (client_Get_VirtualService nsName (bs_client st))")
          case (Inl err)
          show ?thesis
          proof (cases "IsNotFound err")
            case True
            then have "policy_step env policy st
                = (None, next_policy (SetAccepted PolicyReasonTargetNotFound [] policy) ?st0)"
              using Inr valid tv Inl by (simp add: policy_step_unfold)
            then show ?thesis by (rule ok) simp
          next
            case False
            then have "policy_step env policy st
                = (Some (Errorf ''failed to get VirtualService'' err (Some nsName)), ?st0)"
              using Inr valid tv Inl by (simp add: policy_step_unfold)
            then show ?thesis by (rule bad) simp
          qed
        next
          case vs: (Inr vs)
          show ?thesis
          proof (cases "ValidateVirtualService env vs")
            case (Some err)
            then have "policy_step env policy st
                = (None, next_policy (SetAccepted PolicyReasonTargetNotFound [err] policy) ?st0)"
              using Inr valid tv vs by (simp add: policy_step_unfold)
            then show ?thesis by (rule ok) simp
          next
            case None
            show ?thesis
            proof (cases "section_ok policy vs")
              case False
              then have "policy_step env policy st
                  = (None, next_policy (SetAccepted PolicyReasonTargetNotFound [] policy) ?st0)"
                using Inr valid tv vs None by (simp add: policy_step_unfold)
              then show ?thesis by (rule ok) simp
            next
              case True
              obtain e s where g: "gateway_loop env policy vs (vs_Gateways vs) ?st0 = (e, s)"
                by (cases "gateway_loop env policy vs (vs_Gateways vs) ?st0")
              have its: "bs_items s = bs_items st"
                using gateway_loop_items[of env policy vs "vs_Gateways vs" ?st0] by (simp add: g)
              show ?thesis
              proof (cases e)
                case n: None
                have "policy_step env policy st = (None, set_final_status policy s)"
                  using Inr valid tv vs None True g n by (simp add: policy_step_unfold)
                then show ?thesis using its by (rule fin)
              next
                case (Some err)
                have "policy_step env policy st = (Some err, s)"
                  using Inr valid tv vs None True g Some by (simp add: policy_step_unfold)
                then show ?thesis using its by (rule bad)
              qed
            qed
          qed
        qed
      qed
    qed
  qed
qed

lemma policies_loop_Cons_None:
  "policy_step env x st = (None, st1) \<Longrightarrow> policies_loop env (x # xs) st = policies_loop env xs st1"
  by simp

lemma policies_loop_Cons_Some:
  "policy_step env x st = (Some err, st1) \<Longrightarrow> policies_loop env (x # xs) st = (Some err, st1)"
  by simp

lemma policies_loop_items:
  "\<exists>ys. bs_items (snd (policies_loop env items st)) = bs_items st @ ys
        \<and> length ys \<le> length items
        \<and> (fst (policies_loop env items st) = None \<longrightarrow> length ys = length items)"
proof (induction items arbitrary: st)
  case Nil
  have "bs_items (snd (policies_loop env [] st)) = bs_items st @ []"
    by simp
  then show ?case by (intro exI[of _ "[]"] conjI impI) simp_all
next
  case (Cons x xs)
  obtain e st1 where r: "policy_step env x st = (e, st1)"
    by (cases "policy_step env x st")
  note psi = policy_step_items[of env x st, unfolded r fst_conv snd_conv]
  show ?case
  proof (cases e)
    case (Some err)
    have l: "policies_loop env (x # xs) st = (Some err, st1)"
      using r unfolding Some by (rule policies_loop_Cons_Some)
    have ne: "e \<noteq> None" using Some by simp
    have i1: "bs_items st1 = bs_items st"
      using conjunct2[OF psi] ne by (rule mp)
    show ?thesis
      unfolding l fst_conv snd_conv i1
      by (intro exI[of _ "[]"] conjI impI) simp_all
  next
    case None
    have l: "policies_loop env (x # xs) st = policies_loop env xs st1"
      using r unfolding None by (rule policies_loop_Cons_None)
    have "\<exists>p'. bs_items st1 = bs_items st @ [p']"
      using conjunct1[OF psi] None by (rule mp)
    then obtain p' where i1: "bs_items st1 = bs_items st @ [p']" ..
    have "\<exists>ys. bs_items (snd (policies_loop env xs st1)) = bs_items st1 @ ys
        \<and> length ys \<le> length xs
        \<and> (fst (policies_loop env xs st1) = None \<longrightarrow> length ys = length xs)"
      by (rule Cons.IH)
    then obtain ys where ysc: "bs_items (snd (policies_loop env xs st1)) = bs_items st1 @ ys
        \<and> length ys \<le> length xs
        \<and> (fst (policies_loop env xs st1) = None \<longrightarrow> length ys = length xs)" ..
    have ys: "bs_items (snd (policies_loop env xs st1)) = bs_items st1 @ ys"
      "length ys \<le> length xs"
      "fst (policies_loop env xs st1) = None \<longrightarrow> length ys = length xs"
      using ysc by (rule conjunct1, rule conjunct2[THEN conjunct1], rule conjunct2[THEN conjunct2])
    have i2: "bs_items (snd (policies_loop env xs st1)) = bs_items st @ (p' # ys)"
      unfolding ys(1) i1 by simp
    show ?thesis
      unfolding l i2
      by (intro exI[of _ "p' # ys"] conjI impI) (use ys(2,3) in simp_all)
  qed
qed

lemma client_List_policies_ok:
  "fault (r_client r) ListHTTPFilterPolicy = None \<Longrightarrow>
   client_List_policies (r_client r) = (Inr (listed r), called ListHTTPFilterPolicy (r_client r))"
  by (simp add: client_List_policies_def listed_def)

lemma policyToTranslationState_unfold:
  assumes "fault (r_client r) ListHTTPFilterPolicy = None"
  shows "policyToTranslationState env r =
     (case policies_loop env (listed r) (start_state r) of
        (Some err, st) \<Rightarrow>
          ((None, Some err), bs_items st @ drop (length (bs_items st)) (listed r),
           r\<lparr>r_client := bs_client st\<rparr>)
      | (None, st) \<Rightarrow>
          ((Some (bs_initState st), None), bs_items st,
           UpdateIndex (bs_istioGwIdx st) (r\<lparr>r_client := bs_client st\<rparr>)))"
  unfolding policyToTranslationState_def client_List_policies_ok[OF assms] start_state_def
  by simp

lemma policies_loop_at:
  assumes "i < length xs" and "fst (policies_loop env (take i xs) st) = None"
  shows "policies_loop env xs st =
     (case policy_step env (xs ! i) (snd (policies_loop env (take i xs) st)) of
        (Some err, st') \<Rightarrow> (Some err, st')
      | (None, st') \<Rightarrow> policies_loop env (drop (Suc i) xs) st')"
proof -
  have xs: "xs = take i xs @ (xs ! i # drop (Suc i) xs)"
    using assms(1) by (simp add: id_take_nth_drop)
  obtain s where s: "policies_loop env (take i xs) st = (None, s)"
    using assms(2) by (cases "policies_loop env (take i xs) st") simp
  have a: "policies_loop env xs st = policies_loop env (take i xs @ (xs ! i # drop (Suc i) xs)) st"
    by (rule arg_cong[where f="\<lambda>l. policies_loop env l st", OF xs])
  have b: "policies_loop env (take i xs @ (xs ! i # drop (Suc i) xs)) st
             = policies_loop env (xs ! i # drop (Suc i) xs) s"
    unfolding policies_loop_append s by simp
  show ?thesis
    unfolding a b s snd_conv by simp
qed

lemma reaches_policyD:
  assumes "reaches_policy env r i"
  shows "fault (r_client r) ListHTTPFilterPolicy = None" "i < length (listed r)"
    "fst (policies_loop env (take i (listed r)) (start_state r)) = None"
  using assms by (simp_all add: reaches_policy_def)

lemma state_at_items:
  assumes "reaches_policy env r i"
  shows "length (bs_items (state_at env r i)) = i"
proof -
  note d = reaches_policyD[OF assms]
  obtain ys where ys: "bs_items (snd (policies_loop env (take i (listed r)) (start_state r)))
                         = bs_items (start_state r) @ ys
        \<and> length ys \<le> length (take i (listed r))
        \<and> (fst (policies_loop env (take i (listed r)) (start_state r)) = None
             \<longrightarrow> length ys = length (take i (listed r)))"
    using policies_loop_items[of env "take i (listed r)" "start_state r"] ..
  have l: "length ys = length (take i (listed r))"
    using conjunct2[OF conjunct2[OF ys]] d(3) by (rule mp)
  have s: "bs_items (start_state r) = []"
    by (simp add: start_state_def)
  have "bs_items (state_at env r i) = ys"
    unfolding state_at_def conjunct1[OF ys] s by simp
  then show ?thesis using l d(2) by simp
qed

lemma state_at_grows:
  "only_trace_grows (r_client r) (bs_client (state_at env r i))"
proof -
  have a: "only_trace_grows (r_client r) (bs_client (start_state r))"
    using called_grows[of "r_client r" ListHTTPFilterPolicy] by (simp add: start_state_def)
  have b: "only_trace_grows (bs_client (start_state r)) (bs_client (state_at env r i))"
    unfolding state_at_def
    using policies_loop_grows[of "start_state r" env "take i (listed r)"] by (rule conjunct1)
  show ?thesis
    using only_trace_grows_trans[OF a b] by (rule conjunct1)
qed

lemma state_at_Suc:
  assumes "reaches_policy env r i"
  shows "state_at env r (Suc i) = snd (policy_step env (listed r ! i) (state_at env r i))"
proof -
  note d = reaches_policyD[OF assms]
  obtain s where s: "policies_loop env (take i (listed r)) (start_state r) = (None, s)"
    using d(3) by (cases "policies_loop env (take i (listed r)) (start_state r)") simp
  have t: "take (Suc i) (listed r) = take i (listed r) @ [listed r ! i]"
    using d(2) by (rule take_Suc_conv_app_nth)
  have sa: "state_at env r i = s"
    unfolding state_at_def s by simp
  obtain e st1 where p: "policy_step env (listed r ! i) s = (e, st1)"
    by (cases "policy_step env (listed r ! i) s")
  have "snd (policies_loop env (take i (listed r) @ [listed r ! i]) (start_state r)) = st1"
    unfolding policies_loop_append s by (cases e) (simp_all add: p)
  then show ?thesis
    unfolding state_at_def[of env r "Suc i"] t unfolding sa p by simp
qed

lemma policies_after_set:
  assumes "reaches_policy env r i"
    and "policy_step env (listed r ! i) (state_at env r i) = (None, st')"
    and "bs_items st' = bs_items (state_at env r i) @ [p']"
  shows "policies_after env r ! i = p'"
proof -
  note d = reaches_policyD[OF assms(1)]
  have len: "length (bs_items (state_at env r i)) = i"
    using assms(1) by (rule state_at_items)
  have l: "policies_loop env (listed r) (start_state r)
             = policies_loop env (drop (Suc i) (listed r)) st'"
    using policies_loop_at[OF d(2) d(3)] assms(2) by (simp add: state_at_def)
  obtain e2 s2 where r2: "policies_loop env (drop (Suc i) (listed r)) st' = (e2, s2)"
    by (cases "policies_loop env (drop (Suc i) (listed r)) st'")
  obtain ys where ys: "bs_items (snd (policies_loop env (drop (Suc i) (listed r)) st'))
                         = bs_items st' @ ys
        \<and> length ys \<le> length (drop (Suc i) (listed r))
        \<and> (fst (policies_loop env (drop (Suc i) (listed r)) st') = None
             \<longrightarrow> length ys = length (drop (Suc i) (listed r)))"
    using policies_loop_items[of env "drop (Suc i) (listed r)" st'] ..
  have i2: "bs_items s2 = bs_items (state_at env r i) @ p' # ys"
    using conjunct1[OF ys] unfolding r2 snd_conv assms(3) by simp
  have n: "(bs_items s2 @ zs) ! i = p'" for zs
    unfolding i2 using len by (simp add: nth_append)
  have "policies_after env r = bs_items s2 @ (case e2 of None \<Rightarrow> [] | Some err \<Rightarrow> drop (length (bs_items s2)) (listed r))"
    unfolding policies_after_def policyToTranslationState_unfold[OF d(1)] l r2
    by (cases e2) simp_all
  then show ?thesis using n by simp
qed

lemma policies_after_failed:
  assumes "reaches_policy env r i"
    and "policy_step env (listed r ! i) (state_at env r i) = (Some err, st')"
  shows "policies_after env r ! i = listed r ! i"
    and "fst (policyToTranslationState env r) = (None, Some err)"
proof -
  note d = reaches_policyD[OF assms(1)]
  have len: "length (bs_items (state_at env r i)) = i"
    using assms(1) by (rule state_at_items)
  have l: "policies_loop env (listed r) (start_state r) = (Some err, st')"
    using policies_loop_at[OF d(2) d(3)] assms(2) by (simp add: state_at_def)
  note psi = policy_step_items[of env "listed r ! i" "state_at env r i", unfolded assms(2) fst_conv snd_conv]
  have ne: "Some err \<noteq> None" by simp
  have its: "bs_items st' = bs_items (state_at env r i)"
    using conjunct2[OF psi] ne by (rule mp)
  have pa: "policies_after env r = bs_items (state_at env r i) @ drop i (listed r)"
    unfolding policies_after_def policyToTranslationState_unfold[OF d(1)] l
    by (simp add: its len)
  show "policies_after env r ! i = listed r ! i"
    unfolding pa using len d(2) by (simp add: nth_append)
  show "fst (policyToTranslationState env r) = (None, Some err)"
    unfolding policyToTranslationState_unfold[OF d(1)] l by simp
qed

lemma get_VirtualService_calls:
  "fst (client_Get_VirtualService k (cl\<lparr>c_calls := cs\<rparr>)) = fst (client_Get_VirtualService k cl)"
  by (simp add: client_Get_VirtualService_def fault_def cong: option.case_cong)

lemma get_VirtualService_grown:
  "only_trace_grows cl cl' \<Longrightarrow>
   fst (client_Get_VirtualService k cl') = fst (client_Get_VirtualService k cl)"
  using get_VirtualService_calls by (metis only_trace_growsD)

lemma reaches_gateway_loop_grown:
  "only_trace_grows cl cl' \<Longrightarrow>
   reaches_gateway_loop env p cl' vs = reaches_gateway_loop env p cl vs"
  by (simp add: reaches_gateway_loop_def get_VirtualService_grown cong: sum.case_cong)

lemma gateway_step_fails:
  "gateway_read_fails (bs_client st) vs gw \<Longrightarrow> fst (gateway_step env policy vs gw st) \<noteq> None"
  by (auto simp: gateway_step_unfold gateway_read_fails_def split: sum.splits)

lemma gateway_loop_fails:
  assumes "\<exists>gw\<in>set gws. gateway_read_fails (bs_client st) vs gw"
  shows "fst (gateway_loop env policy vs gws st) \<noteq> None"
  using assms
proof (induction gws arbitrary: st)
  case Nil
  then show ?case by simp
next
  case (Cons gw gws)
  obtain e st1 where r: "gateway_step env policy vs gw st = (e, st1)"
    by (cases "gateway_step env policy vs gw st")
  show ?case
  proof (cases e)
    case (Some err)
    then show ?thesis by (simp add: r)
  next
    case None
    have l: "gateway_loop env policy vs (gw # gws) st = gateway_loop env policy vs gws st1"
      by (simp add: r None)
    have nf: "\<not> gateway_read_fails (bs_client st) vs gw"
      using gateway_step_fails[of st vs gw env policy] r None by auto
    have g: "only_trace_grows (bs_client st) (bs_client st1)"
      using gateway_step_grows[of st env policy vs gw] by (simp add: r)
    have "\<exists>g\<in>set gws. gateway_read_fails (bs_client st1) vs g"
      using Cons.prems nf by (simp add: gateway_read_fails_grown[OF g])
    from Cons.IH[OF this] show ?thesis unfolding l .
  qed
qed

lemma policy_step_final:
  assumes "reaches_gateway_loop env policy (bs_client st) vs"
    and "\<forall>gw\<in>set (vs_Gateways vs). \<not> gateway_read_fails (bs_client st) vs gw"
  shows "fst (policy_step env policy st) = None"
    and "bs_items (snd (policy_step env policy st)) =
          bs_items st @
          [if \<exists>gw\<in>set (vs_Gateways vs). usable_gateway env (bs_client st) vs gw
           then SetAccepted PolicyReasonAccepted [] policy
           else SetAccepted PolicyReasonTargetNotFound [''invalid target resource''] policy]"
proof -
  obtain n where n: "resolve_nsName env policy = Inr n"
    using assms(1) reaches_gateway_loopD[of env policy "bs_client st" vs] by blast
  let ?st0 = "st\<lparr>bs_accepted := False,
                 bs_client := called (GetVirtualService n) (bs_client st)\<rparr>"
  let ?r = "gateway_loop env policy vs (vs_Gateways vs) ?st0"
  have g: "only_trace_grows (bs_client st) (bs_client ?st0)"
    by (simp add: called_def only_trace_grows_append)
  have nf: "\<forall>gw\<in>set (vs_Gateways vs). \<not> gateway_read_fails (bs_client ?st0) vs gw"
    using assms(2) gateway_read_fails_grown[OF g] by simp
  have ok: "fst ?r = None"
    and acc: "bs_accepted (snd ?r) = (\<exists>gw\<in>set (vs_Gateways vs). usable_gateway env (bs_client st) vs gw)"
    using gateway_loop_ok[OF nf, of env policy] usable_gateway_grown[OF g] by simp_all
  have items: "bs_items (snd ?r) = bs_items st"
    using gateway_loop_grows[of ?st0 env policy vs "vs_Gateways vs"] by simp
  have step: "policy_step env policy st = (None, set_final_status policy (snd ?r))"
    using assms(1) n policy_step_reaches[of env policy n st vs] ok by (cases ?r) simp
  show "fst (policy_step env policy st) = None"
    by (simp add: step)
  show "bs_items (snd (policy_step env policy st)) =
          bs_items st @
          [if \<exists>gw\<in>set (vs_Gateways vs). usable_gateway env (bs_client st) vs gw
           then SetAccepted PolicyReasonAccepted [] policy
           else SetAccepted PolicyReasonTargetNotFound [''invalid target resource''] policy]"
    by (simp add: step set_final_status_def next_policy_def acc items)
qed

lemma policy_step_gateway_failure:
  assumes "reaches_gateway_loop env policy (bs_client st) vs"
    and "\<exists>gw\<in>set (vs_Gateways vs). gateway_read_fails (bs_client st) vs gw"
  shows "fst (policy_step env policy st) \<noteq> None"
proof -
  obtain n where n: "resolve_nsName env policy = Inr n"
    using assms(1) reaches_gateway_loopD[of env policy "bs_client st" vs] by blast
  let ?st0 = "st\<lparr>bs_accepted := False,
                 bs_client := called (GetVirtualService n) (bs_client st)\<rparr>"
  let ?r = "gateway_loop env policy vs (vs_Gateways vs) ?st0"
  have g: "only_trace_grows (bs_client st) (bs_client ?st0)"
    by (simp add: called_def only_trace_grows_append)
  have f: "\<exists>gw\<in>set (vs_Gateways vs). gateway_read_fails (bs_client ?st0) vs gw"
    using assms(2) gateway_read_fails_grown[OF g] by simp
  have bad: "fst ?r \<noteq> None"
    using f by (rule gateway_loop_fails)
  have step: "policy_step env policy st =
     (case ?r of (Some err, st1) \<Rightarrow> (Some err, st1)
               | (None, st1) \<Rightarrow> (None, set_final_status policy st1))"
    using n assms(1) by (rule policy_step_reaches)
  show ?thesis
    unfolding step finish_fst by (rule bad)
qed

lemma policy_step_other_kind:
  assumes "resolve_nsName env policy = Inr nsName" and "IsValid env policy"
    and "\<not> targets_VirtualService policy"
  shows "policy_step env policy st =
        (None, next_policy
                 (SetAccepted PolicyReasonTargetNotFound [''invalid target resource''] policy)
                 (st\<lparr>bs_accepted := False\<rparr>))"
  using assms by (simp add: policy_step_unfold set_final_status_def)

lemma policy_step_missing_section:
  assumes "resolve_nsName env policy = Inr nsName" and "IsValid env policy"
    and "targets_VirtualService policy"
    and "tr_SectionName (hfp_TargetRef policy) = Some name"
    and "fst (client_Get_VirtualService nsName (bs_client st)) = Inr vs"
    and "\<forall>section\<in>set (vs_Http vs). hr_Name section \<noteq> name"
  shows "policy_step env policy st =
     (None, next_policy
              (SetAccepted PolicyReasonTargetNotFound
                 (case ValidateVirtualService env vs of None \<Rightarrow> [] | Some err \<Rightarrow> [err]) policy)
              (st\<lparr>bs_accepted := False,
                  bs_client := called (GetVirtualService nsName) (bs_client st)\<rparr>))"
proof -
  have "\<not> section_ok policy vs"
    using assms(4,6) by (simp add: section_ok_def list_ex_iff)
  with assms show ?thesis
    by (simp add: policy_step_unfold split: option.splits)
qed

subsection \<open>Convergence of the applier\<close>

lemma map_ef_key_replace:
  "ef_key new = k \<Longrightarrow> map ef_key (map (\<lambda>e. if ef_key e = k then new else e) xs) = map ef_key xs"
  by (induction xs) simp_all

lemma upsert_step_distinct:
  assumes "distinct (map ef_key (c_envoyfilters cl))"
  shows "distinct (map ef_key (c_envoyfilters (snd (upsert_step env d cl))))"
proof -
  let ?k = "ef_key (owned env d)"
  let ?r = "upsert_step env d cl"
  show ?thesis
  proof (insert upsert_step_outcome[of env d cl], elim disjE exE conjE, goal_cases)
    case (1 err)
    then show ?case using assms by simp
  next
    case (2 old)
    then show ?case using assms by (simp add: called_store)
  next
    case 3
    then have "?k \<notin> ef_key ` set (c_envoyfilters cl)"
      by (auto simp: stored_None)
    then show ?case using 3 assms by simp
  next
    case (4 old)
    have "map ef_key (map (\<lambda>e. if ef_key e = ?k
                   then (owned env d)\<lparr>ef_ResourceVersion := ef_ResourceVersion old\<rparr> else e)
           (c_envoyfilters cl)) = map ef_key (c_envoyfilters cl)"
      by (rule map_ef_key_replace) (simp add: ef_key_rv)
    then have "distinct (map ef_key (map (\<lambda>e. if ef_key e = ?k
                   then (owned env d)\<lparr>ef_ResourceVersion := ef_ResourceVersion old\<rparr> else e)
           (c_envoyfilters cl)))"
      using assms by (simp only:)
    then show ?case using 4 by (simp only:)
  qed
qed

lemma upsert_loop_distinct:
  "distinct (map ef_key (c_envoyfilters cl)) \<Longrightarrow>
   distinct (map ef_key (c_envoyfilters (snd (upsert_loop env ds cl))))"
proof (induction ds arbitrary: cl)
  case Nil
  then show ?case by simp
next
  case (Cons d ds)
  obtain e cl1 where r: "upsert_step env d cl = (e, cl1)"
    by (cases "upsert_step env d cl")
  have d1: "distinct (map ef_key (c_envoyfilters cl1))"
    using upsert_step_distinct[OF Cons.prems, of env d] by (simp add: r)
  show ?case
  proof (cases e)
    case (Some err)
    then show ?thesis using d1 by (simp add: r)
  next
    case None
    have l: "upsert_loop env (d # ds) cl = upsert_loop env ds cl1"
      by (simp add: r None)
    show ?thesis unfolding l using d1 by (rule Cons.IH)
  qed
qed

lemma prune_loop_distinct:
  "distinct (map ef_key (c_envoyfilters cl)) \<Longrightarrow>
   distinct (map ef_key (c_envoyfilters (snd (prune_loop fs efs cl))))"
proof (induction efs arbitrary: cl)
  case Nil
  then show ?case by simp
next
  case (Cons d efs)
  show ?case
  proof (cases "map_of (fs_EnvoyFilters fs) (ef_Name d)")
    case (Some x)
    have l: "prune_loop fs (d # efs) cl = prune_loop fs efs cl"
      by (simp add: Some)
    show ?thesis unfolding l using Cons.prems by (rule Cons.IH)
  next
    case None
    obtain e cl1 where r: "client_Delete_EnvoyFilter d cl = (e, cl1)"
      by (cases "client_Delete_EnvoyFilter d cl")
    have s1: "c_envoyfilters cl1 = c_envoyfilters cl
              \<or> c_envoyfilters cl1 = filter (\<lambda>e. ef_key e \<noteq> ef_key d) (c_envoyfilters cl)"
      using Delete_props[of d cl] by (auto simp: r)
    have d1: "distinct (map ef_key (c_envoyfilters cl1))"
      using s1 Cons.prems by (auto simp: distinct_map_filter)
    show ?thesis
    proof (cases e)
      case (Some err)
      then show ?thesis using d1 by (simp add: None r)
    next
      case n: None
      have l: "prune_loop fs (d # efs) cl = prune_loop fs efs cl1"
        by (simp add: None r n)
      show ?thesis unfolding l using d1 by (rule Cons.IH)
    qed
  qed
qed

lemma upsert_loop_present:
  assumes "fst (upsert_loop env ds cl) = None"
    and "\<forall>e\<in>set (c_envoyfilters cl). ef_key e \<in> K \<longrightarrow> labeled e"
    and "(\<lambda>d. ef_key (owned env d)) ` set ds \<subseteq> K"
    and "distinct (map (\<lambda>d. ef_key (owned env d)) ds)"
  shows "\<forall>d\<in>set ds. \<exists>e'\<in>set (c_envoyfilters (snd (upsert_loop env ds cl))).
           labeled e' \<and> ef_key e' = ef_key (owned env d) \<and> ef_Spec e' = ef_Spec d"
  using assms
proof (induction ds arbitrary: cl)
  case Nil
  show ?case by simp
next
  case (Cons d ds)
  obtain e cl1 where r: "upsert_step env d cl = (e, cl1)"
    by (cases "upsert_step env d cl")
  have e: "e = None" using Cons.prems(1) r by (cases e) auto
  have l: "upsert_loop env (d # ds) cl = upsert_loop env ds cl1"
    by (simp add: r e)
  have s3: "\<forall>e'\<in>set (c_envoyfilters cl1).
         e' \<in> set (c_envoyfilters cl)
         \<or> (labeled e' \<and> ef_key e' = ef_key (owned env d) \<and> ef_Spec e' = ef_Spec d)"
    using upsert_step_sets[of cl env d] unfolding r snd_conv by (elim conjE)
  have s4: "\<exists>e'\<in>set (c_envoyfilters cl1).
           ef_key e' = ef_key (owned env d) \<and> ef_Spec e' = ef_Spec d
           \<and> (labeled e' \<or> e' \<in> set (c_envoyfilters cl))"
    using upsert_step_sets[of cl env d] unfolding r snd_conv fst_conv e by (elim conjE) simp
  have kd: "ef_key (owned env d) \<in> K" using Cons.prems(3) by simp
  obtain e1 where e1: "e1 \<in> set (c_envoyfilters cl1)" "ef_key e1 = ef_key (owned env d)"
      "ef_Spec e1 = ef_Spec d"
    and e1': "labeled e1 \<or> e1 \<in> set (c_envoyfilters cl)"
    using s4 by blast
  have le1: "labeled e1"
    using e1' e1(2) kd Cons.prems(2) by auto
  have j1: "\<forall>x\<in>set (c_envoyfilters cl1). ef_key x \<in> K \<longrightarrow> labeled x"
  proof (intro ballI impI)
    fix x assume x: "x \<in> set (c_envoyfilters cl1)" "ef_key x \<in> K"
    from s3 x(1) have "x \<in> set (c_envoyfilters cl) \<or> labeled x" by blast
    then show "labeled x" using Cons.prems(2) x(2) by blast
  qed
  have k1: "(\<lambda>d. ef_key (owned env d)) ` set ds \<subseteq> K"
    using Cons.prems(3) by simp
  have f1: "fst (upsert_loop env ds cl1) = None"
    using Cons.prems(1) l by simp
  have dd: "distinct (map (\<lambda>d. ef_key (owned env d)) ds)"
    and nk: "ef_key (owned env d) \<notin> (\<lambda>d. ef_key (owned env d)) ` set ds"
    using Cons.prems(4) by simp_all
  note ih = Cons.IH[OF f1 j1 k1 dd]
  have keep: "\<forall>e\<in>set (c_envoyfilters cl1). ef_key e \<notin> (\<lambda>d. ef_key (owned env d)) ` set ds \<longrightarrow>
       e \<in> set (c_envoyfilters (snd (upsert_loop env ds cl1)))"
    using upsert_loop_sets[of cl1 env ds] by (elim conjE)
  have z: "e1 \<in> set (c_envoyfilters (snd (upsert_loop env ds cl1)))"
    using keep e1(1) nk unfolding e1(2)[symmetric] by blast
  show ?case
    unfolding l
  proof
    fix x assume "x \<in> set (d # ds)"
    then consider "x = d" | "x \<in> set ds" by auto
    then show "\<exists>e'\<in>set (c_envoyfilters (snd (upsert_loop env ds cl1))).
           labeled e' \<and> ef_key e' = ef_key (owned env x) \<and> ef_Spec e' = ef_Spec x"
    proof cases
      case 1
      show ?thesis unfolding 1 using z le1 e1(2,3) by (intro bexI[of _ e1] conjI)
    next
      case 2
      then show ?thesis using ih by (rule bspec[rotated])
    qed
  qed
qed

lemma owned_key:
  "ef_key (owned env d) = \<lparr>nn_Namespace = RootNamespace env, nn_Name = ef_Name d\<rparr>"
  by (simp add: ef_key_def owned_fields)

lemma desired_keys_distinct:
  assumes "keyed_by_name finalState" and "distinct (map fst (fs_EnvoyFilters finalState))"
  shows "distinct (map (\<lambda>d. ef_key (owned env d)) (map snd (fs_EnvoyFilters finalState)))"
proof -
  let ?g = "\<lambda>n. \<lparr>nn_Namespace = RootNamespace env, nn_Name = n\<rparr>"
  have eq: "map (\<lambda>d. ef_key (owned env d)) (map snd (fs_EnvoyFilters finalState))
          = map ?g (map fst (fs_EnvoyFilters finalState))"
    using assms(1) by (auto simp: keyed_by_name_def list_all_iff owned_key)
  have inj: "inj_on ?g (set (map fst (fs_EnvoyFilters finalState)))"
    by (rule inj_onI) simp
  have "distinct (map ?g (map fst (fs_EnvoyFilters finalState)))"
    unfolding distinct_map[of ?g "map fst (fs_EnvoyFilters finalState)"]
    using assms(2) inj by (rule conjI)
  then show ?thesis unfolding eq .
qed

lemma applier_objects:
  assumes ok: "fst (translationStateToCustomResource env finalState cl) = None"
    and k: "keyed_by_name finalState"
    and dk: "distinct (map fst (fs_EnvoyFilters finalState))"
    and dc: "distinct (map ef_key (c_envoyfilters cl))"
    and j: "\<forall>e\<in>set (c_envoyfilters cl). ef_key e \<in> set (desired_keys env finalState) \<longrightarrow> labeled e"
    and ns: "\<forall>e\<in>set (c_envoyfilters cl).
               labeled e \<and> map_of (fs_EnvoyFilters finalState) (ef_Name e) \<noteq> None \<longrightarrow>
               ef_Namespace e = RootNamespace env"
  shows "labeled_objects (snd (translationStateToCustomResource env finalState cl))
           = desired_objects env finalState"
proof -
  let ?L = "ListEnvoyFilterByLabel LabelCreatedBy ''HTTPFilterPolicy''"
  let ?cl0 = "called ?L cl"
  let ?efs = "filter labeled (c_envoyfilters cl)"
  let ?p = "prune_loop finalState ?efs ?cl0"
  let ?ds = "map snd (fs_EnvoyFilters finalState)"
  let ?u = "upsert_loop env ?ds (snd ?p)"
  show ?thesis
  proof (cases rule: applier_cases[of env finalState cl])
    case (list_failed err)
    then show ?thesis using ok by simp
  next
    case (prune_failed err)
    then show ?thesis using ok by simp
  next
    case pruned
    have sub: "set (c_envoyfilters (snd ?p)) \<subseteq> set (c_envoyfilters cl)"
      using prune_loop_store[of finalState ?efs ?cl0] by (simp add: called_store)
    have uok: "fst ?u = None" using ok unfolding pruned(2) .
    have keys: "(\<lambda>d. ef_key (owned env d)) ` set ?ds \<subseteq> set (desired_keys env finalState)"
      by (simp add: desired_keys_def image_image)
    have j1: "\<forall>e\<in>set (c_envoyfilters (snd ?p)).
                ef_key e \<in> set (desired_keys env finalState) \<longrightarrow> labeled e"
      using j sub by blast
    have dd: "distinct (map (\<lambda>d. ef_key (owned env d)) ?ds)"
      using k dk by (rule desired_keys_distinct)
    note present = upsert_loop_present[OF uok j1 keys dd]
    have dp: "distinct (map ef_key (c_envoyfilters (snd ?p)))"
      by (rule prune_loop_distinct) (simp add: called_store dc)
    have du: "distinct (map ef_key (c_envoyfilters (snd ?u)))"
      using dp by (rule upsert_loop_distinct)
    have inj: "inj_on ef_key (set (c_envoyfilters (snd ?u)))"
      using du by (simp add: distinct_map)
    have kept: "\<exists>d\<in>set ?ds. ef_key z = ef_key (owned env d)"
      if z: "z \<in> set (c_envoyfilters (snd ?p))" "labeled z" for z
    proof -
      have zc: "z \<in> set (c_envoyfilters cl)" using sub z(1) by blast
      then have ze: "z \<in> set ?efs" using z(2) by simp
      have nm: "map_of (fs_EnvoyFilters finalState) (ef_Name z) \<noteq> None"
      proof
        assume "map_of (fs_EnvoyFilters finalState) (ef_Name z) = None"
        then have "\<forall>e\<in>set (c_envoyfilters (snd ?p)). ef_key e \<noteq> ef_key z"
          using prune_loop_success[OF pruned(1), rule_format, OF ze] by simp
        then show False using z(1) by blast
      qed
      have root: "ef_Namespace z = RootNamespace env"
        using ns zc z(2) nm by blast
      obtain d where d: "map_of (fs_EnvoyFilters finalState) (ef_Name z) = Some d"
        using nm by blast
      then have m: "(ef_Name z, d) \<in> set (fs_EnvoyFilters finalState)"
        by (rule map_of_SomeD)
      then have nd: "ef_Name d = ef_Name z"
        using k by (auto simp: keyed_by_name_def list_all_iff)
      have ds: "d \<in> set ?ds"
        using m by (auto simp: image_iff intro!: bexI[of _ "(ef_Name z, d)"])
      have "ef_key z = ef_key (owned env d)"
        unfolding owned_key nd by (simp add: ef_key_def root)
      then show ?thesis using ds by blast
    qed
    have left: "labeled_objects (snd ?u) \<subseteq> desired_objects env finalState"
    proof
      fix x assume "x \<in> labeled_objects (snd ?u)"
      then obtain z where z: "z \<in> set (c_envoyfilters (snd ?u))" "labeled z"
        "x = (ef_key z, ef_Spec z)"
        by (auto simp: labeled_objects_def)
      have "\<exists>d\<in>set ?ds. ef_key z = ef_key (owned env d) \<and> ef_Spec z = ef_Spec d"
      proof (cases "z \<in> set (c_envoyfilters (snd ?p))")
        case True
        obtain d where d: "d \<in> set ?ds" "ef_key z = ef_key (owned env d)"
          using kept[OF True z(2)] by blast
        obtain e' where e': "e' \<in> set (c_envoyfilters (snd ?u))"
          "ef_key e' = ef_key (owned env d)" "ef_Spec e' = ef_Spec d"
          using present d(1) by blast
        have "ef_key e' = ef_key z"
          unfolding e'(2) d(2) by (rule refl)
        with inj have "e' = z"
          using e'(1) z(1) by (rule inj_onD)
        then show ?thesis using d e'(3) by blast
      next
        case False
        have "z \<in> set (c_envoyfilters (snd ?p))
              \<or> (labeled z \<and> (\<exists>d\<in>set ?ds. ef_key z = ef_key (owned env d) \<and> ef_Spec z = ef_Spec d))"
          using upsert_loop_sets[of "snd ?p" env ?ds] z(1) by blast
        then show ?thesis using False by blast
      qed
      then obtain d where "d \<in> set ?ds" "ef_key z = ef_key (owned env d)" "ef_Spec z = ef_Spec d"
        by blast
      then show "x \<in> desired_objects env finalState"
        unfolding z(3) desired_objects_def by (auto simp: image_iff)
    qed
    have right: "desired_objects env finalState \<subseteq> labeled_objects (snd ?u)"
    proof
      fix x assume "x \<in> desired_objects env finalState"
      then obtain d where d: "d \<in> set ?ds" "x = (ef_key (owned env d), ef_Spec d)"
        unfolding desired_objects_def by auto
      obtain z where z: "z \<in> set (c_envoyfilters (snd ?u))" "labeled z"
        "ef_key z = ef_key (owned env d)" "ef_Spec z = ef_Spec d"
        using present d(1) by blast
      show "x \<in> labeled_objects (snd ?u)"
        unfolding d(2) labeled_objects_def using z by (auto simp: image_iff intro!: bexI[of _ z])
    qed
    show ?thesis unfolding pruned(2) using left right by (rule equalityI)
  qed
qed

section \<open>The claims\<close>



text \<open>
  C1, as stated, fails: a Gateway read that fails with an error other than "not found"
  makes the function return that error from inside the gateway loop (lines 199 to
  201), before the status is set at lines 231 to 235. The VirtualService of the sample
  policy names the gateways "gw" and "gw2"; "gw" resolves to a Gateway that passes
  validation and the read of "gw2" times out: the function returns the error and the
  policy is left without a status. Likewise a policy that stands in the list after one
  whose VirtualService read times out is never looked at: the function has returned,
  and the policy is left without a status although its gateway "gw" is usable and no
  Gateway read fails.
\<close>

theorem gateway_read_failure_leaves_status_unset:
  "listed (demo_reconciler demo_cluster_gw2_fault) = [demo_policy]
   \<and> reaches_policy demo_env (demo_reconciler demo_cluster_gw2_fault) 0
   \<and> IsValid demo_env demo_policy \<and> targets_VirtualService demo_policy
   \<and> reaches_gateway_loop demo_env demo_policy demo_cluster_gw2_fault demo_vs_two
   \<and> usable_gateway demo_env demo_cluster_gw2_fault demo_vs_two ''gw''
   \<and> fst (policyToTranslationState demo_env (demo_reconciler demo_cluster_gw2_fault))
       = (None, Some (ApiError (Failure ''timeout'')))
   \<and> policies_after demo_env (demo_reconciler demo_cluster_gw2_fault) = [demo_policy]
   \<and> hfp_Status demo_policy = None
   \<and> listed (demo_reconciler demo_cluster_earlier_fault) = [demo_policy_lost, demo_policy]
   \<and> reaches_gateway_loop demo_env demo_policy demo_cluster_earlier_fault demo_vs
   \<and> usable_gateway demo_env demo_cluster_earlier_fault demo_vs ''gw''
   \<and> list_all (\<lambda>gw. \<not> gateway_read_fails demo_cluster_earlier_fault demo_vs gw) (vs_Gateways demo_vs)
   \<and> fst (policyToTranslationState demo_env (demo_reconciler demo_cluster_earlier_fault))
       = (None, Some (Errorf ''failed to get VirtualService'' (Failure ''timeout'')
                        (Some \<lparr>nn_Namespace = ''default'', nn_Name = ''vs-lost''\<rparr>)))
   \<and> policies_after demo_env (demo_reconciler demo_cluster_earlier_fault)
       = [demo_policy_lost, demo_policy]"
  by (simp add: function_defs demo_defs vocabulary_defs step_defs client_defs
      strings_Contains_slash)

text \<open>
  C1, amended. Let the loop of \<open>policyToTranslationState\<close> reach a policy (the list
  call succeeded and no earlier policy made the function return) that passes the
  checks of lines 127 to 147 and targets a VirtualService which is read, passes
  validation and passes the sectionName check. If no Gateway read for a gateway
  reference of that VirtualService fails with an error other than "not found", the
  policy is processed without an error and the list holds it with
  \<open>SetAccepted(Accepted)\<close> when at least one gateway reference resolves to a Gateway
  that passes validation, and with
  \<open>SetAccepted(TargetNotFound, "invalid target resource")\<close> otherwise, whatever happens
  to the policies after it. If such a read fails, the function returns an error and no
  translation state, and the list holds the policy as it was. A valid policy with any
  other target group or kind that the loop reaches is held with TargetNotFound and
  "invalid target resource". The reads are stated of the client as the function
  receives it: a read changes nothing but the trace.
\<close>

theorem accepted_or_target_not_found:
  "(reaches_policy env r i
    \<and> reaches_gateway_loop env (listed r ! i) (r_client r) vs
    \<and> (\<forall>gw\<in>set (vs_Gateways vs). \<not> gateway_read_fails (r_client r) vs gw) \<longrightarrow>
      fst (policy_step env (listed r ! i) (state_at env r i)) = None
      \<and> policies_after env r ! i =
          (if \<exists>gw\<in>set (vs_Gateways vs). usable_gateway env (r_client r) vs gw
           then SetAccepted PolicyReasonAccepted [] (listed r ! i)
           else SetAccepted PolicyReasonTargetNotFound [''invalid target resource''] (listed r ! i)))
   \<and> (reaches_policy env r i
       \<and> reaches_gateway_loop env (listed r ! i) (r_client r) vs
       \<and> (\<exists>gw\<in>set (vs_Gateways vs). gateway_read_fails (r_client r) vs gw) \<longrightarrow>
      fst (fst (policyToTranslationState env r)) = None
      \<and> snd (fst (policyToTranslationState env r)) \<noteq> None
      \<and> policies_after env r ! i = listed r ! i)
   \<and> (reaches_policy env r i
       \<and> resolve_nsName env (listed r ! i) = Inr nsName \<and> IsValid env (listed r ! i)
       \<and> \<not> targets_VirtualService (listed r ! i) \<longrightarrow>
      policies_after env r ! i =
        SetAccepted PolicyReasonTargetNotFound [''invalid target resource''] (listed r ! i))"
proof (intro conjI impI)
  let ?p = "listed r ! i"
  let ?st = "state_at env r i"
  assume a: "reaches_policy env r i
    \<and> reaches_gateway_loop env ?p (r_client r) vs
    \<and> (\<forall>gw\<in>set (vs_Gateways vs). \<not> gateway_read_fails (r_client r) vs gw)"
  have g: "only_trace_grows (r_client r) (bs_client ?st)"
    by (rule state_at_grows)
  have rg: "reaches_gateway_loop env ?p (bs_client ?st) vs"
    using a by (simp add: reaches_gateway_loop_grown[OF g])
  have nf: "\<forall>gw\<in>set (vs_Gateways vs). \<not> gateway_read_fails (bs_client ?st) vs gw"
    using a by (simp add: gateway_read_fails_grown[OF g])
  note f = policy_step_final[OF rg nf]
  show ok: "fst (policy_step env ?p ?st) = None"
    by (rule f(1))
  obtain st' where s: "policy_step env ?p ?st = (None, st')"
    using ok by (cases "policy_step env ?p ?st") simp
  have its: "bs_items st' = bs_items ?st @
          [if \<exists>gw\<in>set (vs_Gateways vs). usable_gateway env (r_client r) vs gw
           then SetAccepted PolicyReasonAccepted [] ?p
           else SetAccepted PolicyReasonTargetNotFound [''invalid target resource''] ?p]"
    using f(2) unfolding s snd_conv by (simp add: usable_gateway_grown[OF g])
  show "policies_after env r ! i =
          (if \<exists>gw\<in>set (vs_Gateways vs). usable_gateway env (r_client r) vs gw
           then SetAccepted PolicyReasonAccepted [] ?p
           else SetAccepted PolicyReasonTargetNotFound [''invalid target resource''] ?p)"
    using conjunct1[OF a] s its by (rule policies_after_set)
next
  let ?p = "listed r ! i"
  let ?st = "state_at env r i"
  assume a: "reaches_policy env r i
       \<and> reaches_gateway_loop env ?p (r_client r) vs
       \<and> (\<exists>gw\<in>set (vs_Gateways vs). gateway_read_fails (r_client r) vs gw)"
  have g: "only_trace_grows (r_client r) (bs_client ?st)"
    by (rule state_at_grows)
  have rg: "reaches_gateway_loop env ?p (bs_client ?st) vs"
    using a by (simp add: reaches_gateway_loop_grown[OF g])
  have fl: "\<exists>gw\<in>set (vs_Gateways vs). gateway_read_fails (bs_client ?st) vs gw"
    using a by (simp add: gateway_read_fails_grown[OF g])
  have "fst (policy_step env ?p ?st) \<noteq> None"
    using rg fl by (rule policy_step_gateway_failure)
  then obtain err st' where s: "policy_step env ?p ?st = (Some err, st')"
    by (cases "policy_step env ?p ?st") auto
  note f = policies_after_failed[OF conjunct1[OF a] s]
  show "fst (fst (policyToTranslationState env r)) = None"
    unfolding f(2) by simp
  show "snd (fst (policyToTranslationState env r)) \<noteq> None"
    unfolding f(2) by simp
  show "policies_after env r ! i = ?p"
    by (rule f(1))
next
  let ?p = "listed r ! i"
  let ?st = "state_at env r i"
  assume a: "reaches_policy env r i
       \<and> resolve_nsName env ?p = Inr nsName \<and> IsValid env ?p
       \<and> \<not> targets_VirtualService ?p"
  have s: "policy_step env ?p ?st =
        (None, next_policy
                 (SetAccepted PolicyReasonTargetNotFound [''invalid target resource''] ?p)
                 (?st\<lparr>bs_accepted := False\<rparr>))"
    using a by (simp add: policy_step_other_kind)
  have its: "bs_items (next_policy
                 (SetAccepted PolicyReasonTargetNotFound [''invalid target resource''] ?p)
                 (?st\<lparr>bs_accepted := False\<rparr>))
             = bs_items ?st @ [SetAccepted PolicyReasonTargetNotFound [''invalid target resource''] ?p]"
    by (simp add: next_policy_def)
  show "policies_after env r ! i =
        SetAccepted PolicyReasonTargetNotFound [''invalid target resource''] ?p"
    using conjunct1[OF a] s its by (rule policies_after_set)
qed

theorem accepted_or_target_not_found_witness:
  "map hfp_Name (listed (demo_reconciler demo_cluster_many)) = [''policy-route'', ''policy-foo'', ''policy'']
   \<and> hfp_Status (policies_after demo_env (demo_reconciler demo_cluster_many) ! 2)
       = Some \<lparr>st_Accepted = True, st_Reason = PolicyReasonAccepted, st_Message = None\<rparr>
   \<and> hfp_Status (policies_after demo_env (demo_reconciler demo_cluster_many_no_gw) ! 2)
       = Some \<lparr>st_Accepted = False, st_Reason = PolicyReasonTargetNotFound,
               st_Message = Some ''invalid target resource''\<rparr>
   \<and> hfp_Status (policies_after demo_env (demo_reconciler demo_cluster_many) ! 0)
       = Some \<lparr>st_Accepted = False, st_Reason = PolicyReasonTargetNotFound,
               st_Message = Some ''invalid target resource''\<rparr>
   \<and> fst (fst (policyToTranslationState demo_env (demo_reconciler demo_cluster_many_gw2_fault))) = None
   \<and> snd (fst (policyToTranslationState demo_env (demo_reconciler demo_cluster_many_gw2_fault))) \<noteq> None
   \<and> policies_after demo_env (demo_reconciler demo_cluster_many_gw2_fault) ! 2 = demo_policy"
proof -
  let ?r = "demo_reconciler demo_cluster_many"
  let ?rn = "demo_reconciler demo_cluster_many_no_gw"
  let ?rf = "demo_reconciler demo_cluster_many_gw2_fault"
  have l: "listed ?r = [demo_policy_route, demo_policy_foo, demo_policy]"
    "listed ?rn = [demo_policy_route, demo_policy_foo, demo_policy]"
    "listed ?rf = [demo_policy_route, demo_policy_foo, demo_policy]"
    by (simp_all add: listed_def demo_defs)
  have names: "map hfp_Name [demo_policy_route, demo_policy_foo, demo_policy]
                 = [''policy-route'', ''policy-foo'', ''policy'']"
    by (simp add: demo_defs)
  have r2: "reaches_policy demo_env ?r 2" "reaches_policy demo_env ?rn 2"
    "reaches_policy demo_env ?rf 2"
    by (simp_all add: function_defs demo_defs vocabulary_defs step_defs client_defs
        strings_Contains_slash)
  have r0: "reaches_policy demo_env ?r 0"
    by (simp add: function_defs demo_defs client_defs)
  have g: "reaches_gateway_loop demo_env demo_policy (r_client ?r) demo_vs"
    "reaches_gateway_loop demo_env demo_policy (r_client ?rn) demo_vs"
    "reaches_gateway_loop demo_env demo_policy (r_client ?rf) demo_vs_two"
    by (simp_all add: demo_defs vocabulary_defs step_defs client_defs)
  have nf: "\<forall>gw\<in>set (vs_Gateways demo_vs). \<not> gateway_read_fails (r_client ?r) demo_vs gw"
    "\<forall>gw\<in>set (vs_Gateways demo_vs). \<not> gateway_read_fails (r_client ?rn) demo_vs gw"
    by (simp_all add: demo_defs vocabulary_defs client_defs)
  have u: "\<exists>gw\<in>set (vs_Gateways demo_vs). usable_gateway demo_env (r_client ?r) demo_vs gw"
    "\<not> (\<exists>gw\<in>set (vs_Gateways demo_vs). usable_gateway demo_env (r_client ?rn) demo_vs gw)"
    by (simp_all add: demo_defs vocabulary_defs client_defs)
  have fl: "\<exists>gw\<in>set (vs_Gateways demo_vs_two). gateway_read_fails (r_client ?rf) demo_vs_two gw"
    by (simp add: demo_defs vocabulary_defs client_defs)
  have o: "resolve_nsName demo_env demo_policy_route = Inr demo_vs_key"
    "IsValid demo_env demo_policy_route" "\<not> targets_VirtualService demo_policy_route"
    by (simp_all add: demo_defs vocabulary_defs step_defs)
  have a: "policies_after demo_env ?r ! 2 = SetAccepted PolicyReasonAccepted [] demo_policy"
    using accepted_or_target_not_found[where env=demo_env and r="?r" and i=2 and vs=demo_vs]
      r2(1) g(1) nf(1) u(1) unfolding l by simp
  have b: "policies_after demo_env ?rn ! 2
             = SetAccepted PolicyReasonTargetNotFound [''invalid target resource''] demo_policy"
    using accepted_or_target_not_found[where env=demo_env and r="?rn" and i=2 and vs=demo_vs]
      r2(2) g(2) nf(2) u(2) unfolding l by simp
  have c: "fst (fst (policyToTranslationState demo_env ?rf)) = None
           \<and> snd (fst (policyToTranslationState demo_env ?rf)) \<noteq> None
           \<and> policies_after demo_env ?rf ! 2 = demo_policy"
    using accepted_or_target_not_found[where env=demo_env and r="?rf" and i=2 and vs=demo_vs_two]
      r2(3) g(3) fl unfolding l by simp
  have d: "policies_after demo_env ?r ! 0
             = SetAccepted PolicyReasonTargetNotFound [''invalid target resource''] demo_policy_route"
    using accepted_or_target_not_found[where env=demo_env and r="?r" and i=0
        and nsName=demo_vs_key] r0 o unfolding l by simp
  show ?thesis
    unfolding a b d l names using c
    by (simp add: SetAccepted_def demo_defs)
qed

text \<open>
  C8. When the targetRef has a sectionName and the VirtualService that was read has no
  HTTP route section of exactly that name, the policy gets the status TargetNotFound,
  the only call made for it is the read of the VirtualService (no Gateway is read),
  and neither the translation state nor the gateway index changes, whatever the
  VirtualService's gateways are. This holds of the loop body in any state, and of
  \<open>policyToTranslationState\<close> for every such policy its loop reaches: the list the
  function leaves holds the policy with TargetNotFound, whatever happens to the
  policies after it, and between that policy and the next one the function makes the
  one read and leaves the translation state and the index under construction as they
  were.
\<close>

theorem missing_section:
  "(resolve_nsName env policy = Inr nsName \<and> IsValid env policy \<and> targets_VirtualService policy
    \<and> tr_SectionName (hfp_TargetRef policy) = Some name
    \<and> fst (client_Get_VirtualService nsName (bs_client st)) = Inr vs
    \<and> (\<forall>section\<in>set (vs_Http vs). hr_Name section \<noteq> name) \<longrightarrow>
    policy_step env policy st =
      (None, next_policy
               (SetAccepted PolicyReasonTargetNotFound
                  (case ValidateVirtualService env vs of None \<Rightarrow> [] | Some err \<Rightarrow> [err]) policy)
               (st\<lparr>bs_accepted := False,
                   bs_client := called (GetVirtualService nsName) (bs_client st)\<rparr>))
    \<and> reason_of (last (bs_items (snd (policy_step env policy st)))) = Some PolicyReasonTargetNotFound
    \<and> new_calls (bs_client st) (bs_client (snd (policy_step env policy st))) = [GetVirtualService nsName]
    \<and> \<not> list_ex is_gateway_read (new_calls (bs_client st) (bs_client (snd (policy_step env policy st))))
    \<and> bs_initState (snd (policy_step env policy st)) = bs_initState st
    \<and> bs_istioGwIdx (snd (policy_step env policy st)) = bs_istioGwIdx st)
   \<and> (reaches_policy env r i
       \<and> resolve_nsName env (listed r ! i) = Inr nsName \<and> IsValid env (listed r ! i)
       \<and> targets_VirtualService (listed r ! i)
       \<and> tr_SectionName (hfp_TargetRef (listed r ! i)) = Some name
       \<and> fst (client_Get_VirtualService nsName (r_client r)) = Inr vs
       \<and> (\<forall>section\<in>set (vs_Http vs). hr_Name section \<noteq> name) \<longrightarrow>
    policies_after env r ! i =
      SetAccepted PolicyReasonTargetNotFound
        (case ValidateVirtualService env vs of None \<Rightarrow> [] | Some err \<Rightarrow> [err]) (listed r ! i)
    \<and> reason_of (policies_after env r ! i) = Some PolicyReasonTargetNotFound
    \<and> new_calls (bs_client (state_at env r i)) (bs_client (state_at env r (Suc i)))
        = [GetVirtualService nsName]
    \<and> bs_initState (state_at env r (Suc i)) = bs_initState (state_at env r i)
    \<and> bs_istioGwIdx (state_at env r (Suc i)) = bs_istioGwIdx (state_at env r i))"
proof -
  have step: "policy_step env p s =
      (None, next_policy
               (SetAccepted PolicyReasonTargetNotFound
                  (case ValidateVirtualService env vs of None \<Rightarrow> [] | Some err \<Rightarrow> [err]) p)
               (s\<lparr>bs_accepted := False,
                   bs_client := called (GetVirtualService nsName) (bs_client s)\<rparr>))"
    if "resolve_nsName env p = Inr nsName \<and> IsValid env p \<and> targets_VirtualService p
        \<and> tr_SectionName (hfp_TargetRef p) = Some name
        \<and> fst (client_Get_VirtualService nsName (bs_client s)) = Inr vs
        \<and> (\<forall>section\<in>set (vs_Http vs). hr_Name section \<noteq> name)" for p s
    using that policy_step_missing_section[of env p nsName name s vs] by blast
  have one: "policy_step env policy st =
      (None, next_policy
               (SetAccepted PolicyReasonTargetNotFound
                  (case ValidateVirtualService env vs of None \<Rightarrow> [] | Some err \<Rightarrow> [err]) policy)
               (st\<lparr>bs_accepted := False,
                   bs_client := called (GetVirtualService nsName) (bs_client st)\<rparr>))
    \<and> reason_of (last (bs_items (snd (policy_step env policy st)))) = Some PolicyReasonTargetNotFound
    \<and> new_calls (bs_client st) (bs_client (snd (policy_step env policy st))) = [GetVirtualService nsName]
    \<and> \<not> list_ex is_gateway_read (new_calls (bs_client st) (bs_client (snd (policy_step env policy st))))
    \<and> bs_initState (snd (policy_step env policy st)) = bs_initState st
    \<and> bs_istioGwIdx (snd (policy_step env policy st)) = bs_istioGwIdx st"
    if a: "resolve_nsName env policy = Inr nsName \<and> IsValid env policy \<and> targets_VirtualService policy
        \<and> tr_SectionName (hfp_TargetRef policy) = Some name
        \<and> fst (client_Get_VirtualService nsName (bs_client st)) = Inr vs
        \<and> (\<forall>section\<in>set (vs_Http vs). hr_Name section \<noteq> name)"
    unfolding step[OF a]
    by (simp add: next_policy_def SetAccepted_def reason_of_def new_calls_def called_def)
  have two: "policies_after env r ! i =
      SetAccepted PolicyReasonTargetNotFound
        (case ValidateVirtualService env vs of None \<Rightarrow> [] | Some err \<Rightarrow> [err]) (listed r ! i)
    \<and> reason_of (policies_after env r ! i) = Some PolicyReasonTargetNotFound
    \<and> new_calls (bs_client (state_at env r i)) (bs_client (state_at env r (Suc i)))
        = [GetVirtualService nsName]
    \<and> bs_initState (state_at env r (Suc i)) = bs_initState (state_at env r i)
    \<and> bs_istioGwIdx (state_at env r (Suc i)) = bs_istioGwIdx (state_at env r i)"
    if a: "reaches_policy env r i
       \<and> resolve_nsName env (listed r ! i) = Inr nsName \<and> IsValid env (listed r ! i)
       \<and> targets_VirtualService (listed r ! i)
       \<and> tr_SectionName (hfp_TargetRef (listed r ! i)) = Some name
       \<and> fst (client_Get_VirtualService nsName (r_client r)) = Inr vs
       \<and> (\<forall>section\<in>set (vs_Http vs). hr_Name section \<noteq> name)"
  proof -
    let ?p = "listed r ! i"
    let ?st = "state_at env r i"
    let ?new = "SetAccepted PolicyReasonTargetNotFound
        (case ValidateVirtualService env vs of None \<Rightarrow> [] | Some err \<Rightarrow> [err]) ?p"
    have rp: "reaches_policy env r i" using a by (rule conjunct1)
    have g: "only_trace_grows (r_client r) (bs_client ?st)"
      by (rule state_at_grows)
    have b: "resolve_nsName env ?p = Inr nsName \<and> IsValid env ?p \<and> targets_VirtualService ?p
        \<and> tr_SectionName (hfp_TargetRef ?p) = Some name
        \<and> fst (client_Get_VirtualService nsName (bs_client ?st)) = Inr vs
        \<and> (\<forall>section\<in>set (vs_Http vs). hr_Name section \<noteq> name)"
      using a by (simp add: get_VirtualService_grown[OF g])
    note s = step[OF b]
    have its: "bs_items (next_policy ?new
                 (?st\<lparr>bs_accepted := False,
                      bs_client := called (GetVirtualService nsName) (bs_client ?st)\<rparr>))
               = bs_items ?st @ [?new]"
      by (simp add: next_policy_def)
    have pa: "policies_after env r ! i = ?new"
      using rp s its by (rule policies_after_set)
    have nx: "state_at env r (Suc i) = next_policy ?new
                 (?st\<lparr>bs_accepted := False,
                      bs_client := called (GetVirtualService nsName) (bs_client ?st)\<rparr>)"
      unfolding state_at_Suc[OF rp] s by simp
    show ?thesis
      unfolding pa nx
      by (simp add: next_policy_def SetAccepted_def reason_of_def new_calls_def called_def)
  qed
  show ?thesis
    using one two by blast
qed

theorem missing_section_witness:
  "policy_step demo_env demo_policy_section (demo_state demo_cluster) =
     (None, (demo_state demo_cluster)
              \<lparr>bs_client := demo_cluster\<lparr>c_calls := [GetVirtualService demo_vs_key]\<rparr>,
               bs_items := [demo_policy_section\<lparr>hfp_Status :=
                  Some \<lparr>st_Accepted = False, st_Reason = PolicyReasonTargetNotFound,
                        st_Message = None\<rparr>\<rparr>]\<rparr>)
   \<and> listed (demo_reconciler demo_cluster_many) ! 1 = demo_policy_foo
   \<and> policies_after demo_env (demo_reconciler demo_cluster_many) ! 1
       = demo_policy_foo\<lparr>hfp_Status :=
                  Some \<lparr>st_Accepted = False, st_Reason = PolicyReasonTargetNotFound,
                        st_Message = None\<rparr>\<rparr>
   \<and> new_calls (bs_client (state_at demo_env (demo_reconciler demo_cluster_many) 1))
        (bs_client (state_at demo_env (demo_reconciler demo_cluster_many) (Suc 1)))
       = [GetVirtualService demo_vs_key]
   \<and> bs_initState (state_at demo_env (demo_reconciler demo_cluster_many) (Suc 1))
       = bs_initState (state_at demo_env (demo_reconciler demo_cluster_many) 1)"
proof -
  let ?r = "demo_reconciler demo_cluster_many"
  have h: "resolve_nsName demo_env demo_policy_section = Inr demo_vs_key
     \<and> IsValid demo_env demo_policy_section \<and> targets_VirtualService demo_policy_section
     \<and> tr_SectionName (hfp_TargetRef demo_policy_section) = Some ''foo''
     \<and> fst (client_Get_VirtualService demo_vs_key (bs_client (demo_state demo_cluster))) = Inr demo_vs
     \<and> (\<forall>section\<in>set (vs_Http demo_vs). hr_Name section \<noteq> ''foo'')"
    by (simp add: demo_defs vocabulary_defs step_defs client_defs)
  have v: "ValidateVirtualService demo_env demo_vs = None"
    by (simp add: demo_defs)
  have l: "listed ?r ! 1 = demo_policy_foo"
    by (simp add: listed_def demo_defs)
  have rp: "reaches_policy demo_env ?r 1"
    by (simp add: function_defs demo_defs vocabulary_defs step_defs client_defs)
  have h2: "resolve_nsName demo_env demo_policy_foo = Inr demo_vs_key
     \<and> IsValid demo_env demo_policy_foo \<and> targets_VirtualService demo_policy_foo
     \<and> tr_SectionName (hfp_TargetRef demo_policy_foo) = Some ''foo''
     \<and> fst (client_Get_VirtualService demo_vs_key (r_client ?r)) = Inr demo_vs
     \<and> (\<forall>section\<in>set (vs_Http demo_vs). hr_Name section \<noteq> ''foo'')"
    by (simp add: demo_defs vocabulary_defs step_defs client_defs)
  note t = missing_section[where env=demo_env and policy=demo_policy_section
      and nsName=demo_vs_key and name="''foo''" and st="demo_state demo_cluster" and vs=demo_vs
      and r="?r" and i=1]
  have a: "policy_step demo_env demo_policy_section (demo_state demo_cluster) =
      (None, next_policy
               (SetAccepted PolicyReasonTargetNotFound
                  (case ValidateVirtualService demo_env demo_vs of None \<Rightarrow> [] | Some err \<Rightarrow> [err])
                  demo_policy_section)
               ((demo_state demo_cluster)\<lparr>bs_accepted := False,
                   bs_client := called (GetVirtualService demo_vs_key)
                                  (bs_client (demo_state demo_cluster))\<rparr>))"
    using t h by blast
  have b: "policies_after demo_env ?r ! 1 =
      SetAccepted PolicyReasonTargetNotFound
        (case ValidateVirtualService demo_env demo_vs of None \<Rightarrow> [] | Some err \<Rightarrow> [err])
        demo_policy_foo
    \<and> new_calls (bs_client (state_at demo_env ?r 1)) (bs_client (state_at demo_env ?r (Suc 1)))
        = [GetVirtualService demo_vs_key]
    \<and> bs_initState (state_at demo_env ?r (Suc 1)) = bs_initState (state_at demo_env ?r 1)"
    using t rp h2 unfolding l by blast
  show ?thesis
    unfolding a using b l v
    by (simp add: next_policy_def SetAccepted_def demo_state_def demo_cluster_def called_def)
qed

text \<open>
  C6. Reading the target VirtualService: "not found" gives the policy the status
  TargetNotFound and the loop goes on with the next policy; any other failure makes
  the loop, and with it \<open>policyToTranslationState\<close>, return that error (wrapped) and
  no translation state, and the gateway index of the reconciler is left as it was.
  Reading a Gateway in the gateway loop: "not found" skips that one reference and the
  loop goes on with the next reference; any other failure is returned, unwrapped, by
  the gateway loop, the policy loop and the function.
\<close>

theorem read_failures:
  "(resolve_nsName env policy = Inr nsName \<and> IsValid env policy \<and> targets_VirtualService policy
    \<and> fst (client_Get_VirtualService nsName (bs_client st)) = Inl NotFound \<longrightarrow>
      policies_loop env (policy # rest) st =
        policies_loop env rest
          (next_policy (SetAccepted PolicyReasonTargetNotFound [] policy)
             (st\<lparr>bs_accepted := False,
                 bs_client := called (GetVirtualService nsName) (bs_client st)\<rparr>)))
   \<and> (resolve_nsName env policy = Inr nsName \<and> IsValid env policy \<and> targets_VirtualService policy
       \<and> fst (client_Get_VirtualService nsName (bs_client st)) = Inl (Failure m) \<longrightarrow>
      fst (policies_loop env (policy # rest) st) =
        Some (Errorf ''failed to get VirtualService'' (Failure m) (Some nsName)))
   \<and> (\<not> skipped_gateway gw \<and> gateway_read (bs_client st) vs gw = Inl NotFound \<longrightarrow>
      gateway_loop env policy vs (gw # gws) st =
        gateway_loop env policy vs gws
          (st\<lparr>bs_client :=
                called (GetGateway \<lparr>nn_Namespace = vs_Namespace vs, nn_Name = gw\<rparr>) (bs_client st)\<rparr>))
   \<and> (\<not> skipped_gateway gw \<and> gateway_read (bs_client st) vs gw = Inl (Failure m) \<longrightarrow>
      fst (gateway_loop env policy vs (gw # gws) st) = Some (ApiError (Failure m)))
   \<and> (resolve_nsName env policy = Inr nsName
       \<and> reaches_gateway_loop env policy (bs_client st) vs
       \<and> fst (gateway_loop env policy vs (vs_Gateways vs)
                 (st\<lparr>bs_accepted := False,
                     bs_client := called (GetVirtualService nsName) (bs_client st)\<rparr>)) = Some err \<longrightarrow>
      fst (policies_loop env (policy # rest) st) = Some err)
   \<and> (client_List_policies (r_client r) = (Inr items, cl)
       \<and> fst (policies_loop env items
                 \<lparr>bs_client = cl, bs_items = [], bs_initState = NewInitState,
                  bs_istioGwIdx = Map.empty, bs_accepted = False\<rparr>) = Some err \<longrightarrow>
      fst (policyToTranslationState env r) = (None, Some err)
      \<and> r_istioGatewayIndex (snd (snd (policyToTranslationState env r))) = r_istioGatewayIndex r)"
proof (intro conjI impI)
  assume "resolve_nsName env policy = Inr nsName \<and> IsValid env policy \<and> targets_VirtualService policy
    \<and> fst (client_Get_VirtualService nsName (bs_client st)) = Inl NotFound"
  then show "policies_loop env (policy # rest) st =
        policies_loop env rest
          (next_policy (SetAccepted PolicyReasonTargetNotFound [] policy)
             (st\<lparr>bs_accepted := False,
                 bs_client := called (GetVirtualService nsName) (bs_client st)\<rparr>))"
    by (simp add: policy_step_unfold)
next
  assume "resolve_nsName env policy = Inr nsName \<and> IsValid env policy \<and> targets_VirtualService policy
       \<and> fst (client_Get_VirtualService nsName (bs_client st)) = Inl (Failure m)"
  then show "fst (policies_loop env (policy # rest) st) =
        Some (Errorf ''failed to get VirtualService'' (Failure m) (Some nsName))"
    by (simp add: policy_step_unfold)
next
  assume "\<not> skipped_gateway gw \<and> gateway_read (bs_client st) vs gw = Inl NotFound"
  then show "gateway_loop env policy vs (gw # gws) st =
        gateway_loop env policy vs gws
          (st\<lparr>bs_client :=
                called (GetGateway \<lparr>nn_Namespace = vs_Namespace vs, nn_Name = gw\<rparr>) (bs_client st)\<rparr>)"
    by (simp add: gateway_step_unfold)
next
  assume "\<not> skipped_gateway gw \<and> gateway_read (bs_client st) vs gw = Inl (Failure m)"
  then show "fst (gateway_loop env policy vs (gw # gws) st) = Some (ApiError (Failure m))"
    by (simp add: gateway_step_unfold)
next
  assume a: "resolve_nsName env policy = Inr nsName
       \<and> reaches_gateway_loop env policy (bs_client st) vs
       \<and> fst (gateway_loop env policy vs (vs_Gateways vs)
                 (st\<lparr>bs_accepted := False,
                     bs_client := called (GetVirtualService nsName) (bs_client st)\<rparr>)) = Some err"
  then have "fst (policy_step env policy st) = Some err"
    using policy_step_reaches[of env policy nsName st vs]
    by (simp split: prod.splits option.splits)
  then show "fst (policies_loop env (policy # rest) st) = Some err"
    by (rule policies_loop_error)
next
  assume a: "client_List_policies (r_client r) = (Inr items, cl)
       \<and> fst (policies_loop env items
                 \<lparr>bs_client = cl, bs_items = [], bs_initState = NewInitState,
                  bs_istioGwIdx = Map.empty, bs_accepted = False\<rparr>) = Some err"
  then show "fst (policyToTranslationState env r) = (None, Some err)"
    using policyToTranslationState_error[of r items cl env err] by simp
  show "r_istioGatewayIndex (snd (snd (policyToTranslationState env r))) = r_istioGatewayIndex r"
    using a policyToTranslationState_error[of r items cl env err] by simp
qed


theorem read_failures_witness:
  "fst (policies_loop demo_env [demo_policy] (demo_state demo_cluster_no_vs)) = None
   \<and> map hfp_Status (bs_items (snd (policies_loop demo_env [demo_policy] (demo_state demo_cluster_no_vs))))
       = [Some \<lparr>st_Accepted = False, st_Reason = PolicyReasonTargetNotFound, st_Message = None\<rparr>]
   \<and> fst (policies_loop demo_env [demo_policy] (demo_state demo_cluster_vs_fault))
       = Some (Errorf ''failed to get VirtualService'' (Failure ''timeout'') (Some demo_vs_key))
   \<and> gateway_loop demo_env demo_policy demo_vs [''gw''] (demo_state demo_cluster_no_gw)
       = (None, (demo_state demo_cluster_no_gw)
                  \<lparr>bs_client := called (GetGateway demo_gw_key) demo_cluster_no_gw\<rparr>)
   \<and> fst (gateway_loop demo_env demo_policy demo_vs [''gw''] (demo_state demo_cluster_gw_fault))
       = Some (ApiError (Failure ''timeout''))
   \<and> fst (policies_loop demo_env [demo_policy] (demo_state demo_cluster_gw_fault))
       = Some (ApiError (Failure ''timeout''))
   \<and> fst (policyToTranslationState demo_env (demo_reconciler demo_cluster_gw_fault))
       = (None, Some (ApiError (Failure ''timeout'')))"
proof -
  have n: "resolve_nsName demo_env demo_policy = Inr demo_vs_key"
    by (simp add: demo_defs step_defs)
  have v: "IsValid demo_env demo_policy \<and> targets_VirtualService demo_policy"
    by (simp add: demo_defs vocabulary_defs)
  have h1: "fst (client_Get_VirtualService demo_vs_key (bs_client (demo_state demo_cluster_no_vs)))
              = Inl NotFound"
    by (simp add: demo_defs client_defs)
  have h2: "fst (client_Get_VirtualService demo_vs_key (bs_client (demo_state demo_cluster_vs_fault)))
              = Inl (Failure ''timeout'')"
    by (simp add: demo_defs client_defs)
  have h3: "\<not> skipped_gateway ''gw''
            \<and> gateway_read (bs_client (demo_state demo_cluster_no_gw)) demo_vs ''gw'' = Inl NotFound"
    by (simp add: demo_defs vocabulary_defs client_defs)
  have h4: "\<not> skipped_gateway ''gw''
            \<and> gateway_read (bs_client (demo_state demo_cluster_gw_fault)) demo_vs ''gw''
                = Inl (Failure ''timeout'')"
    by (simp add: demo_defs vocabulary_defs client_defs)
  have h5: "reaches_gateway_loop demo_env demo_policy (bs_client (demo_state demo_cluster_gw_fault)) demo_vs
            \<and> fst (gateway_loop demo_env demo_policy demo_vs (vs_Gateways demo_vs)
                 ((demo_state demo_cluster_gw_fault)\<lparr>bs_accepted := False,
                     bs_client := called (GetVirtualService demo_vs_key)
                                    (bs_client (demo_state demo_cluster_gw_fault))\<rparr>))
                = Some (ApiError (Failure ''timeout''))"
    by (simp add: demo_defs vocabulary_defs step_defs client_defs strings_Contains_slash)
  have h6: "client_List_policies (r_client (demo_reconciler demo_cluster_gw_fault))
              = (Inr [demo_policy], called ListHTTPFilterPolicy demo_cluster_gw_fault)
            \<and> fst (policies_loop demo_env [demo_policy]
                 \<lparr>bs_client = called ListHTTPFilterPolicy demo_cluster_gw_fault, bs_items = [],
                  bs_initState = NewInitState, bs_istioGwIdx = Map.empty, bs_accepted = False\<rparr>)
                = Some (ApiError (Failure ''timeout''))"
    by (simp add: demo_defs vocabulary_defs step_defs client_defs strings_Contains_slash)
  show ?thesis
    using read_failures[where env=demo_env and policy=demo_policy and nsName=demo_vs_key
        and st="demo_state demo_cluster_no_vs" and rest="[]"]
      read_failures[where env=demo_env and policy=demo_policy and nsName=demo_vs_key
        and st="demo_state demo_cluster_vs_fault" and rest="[]" and m="''timeout''"]
      read_failures[where env=demo_env and policy=demo_policy and gw="''gw''" and vs=demo_vs
        and st="demo_state demo_cluster_no_gw" and gws="[]"]
      read_failures[where env=demo_env and policy=demo_policy and gw="''gw''" and vs=demo_vs
        and st="demo_state demo_cluster_gw_fault" and gws="[]" and m="''timeout''"
        and nsName=demo_vs_key and rest="[]" and err="ApiError (Failure ''timeout'')"
        and r="demo_reconciler demo_cluster_gw_fault" and items="[demo_policy]"
        and cl="called ListHTTPFilterPolicy demo_cluster_gw_fault"]
      n v h1 h2 h3 h4 h5 h6
    by (simp add: next_policy_def SetAccepted_def demo_state_def demo_vs_def demo_gw_key_def)
qed





text \<open>
  C7. When \<open>policyToTranslationState\<close> succeeds and the translation engine's
  \<open>Process\<close> returns an error, \<open>Reconcile\<close> returns the empty result with a nil
  error and the reconciler as \<open>policyToTranslationState\<close> left it: the calls of the
  pass are the list of the policies and reads of VirtualServices and Gateways only, so
  no EnvoyFilter is listed, created, updated or deleted and no status is updated, and
  the stored EnvoyFilters and policies (with their statuses) are those of before.
\<close>

theorem process_error_ends_reconcile:
  "policyToTranslationState env r = ((Some initState, None), policies, r1)
   \<and> Process env initState = Inl err \<Longrightarrow>
   Reconcile env r = ((empty_Result, None), r1)
   \<and> only_trace_grows (r_client r) (r_client (snd (Reconcile env r)))
   \<and> list_all is_builder_read (new_calls (r_client r) (r_client (snd (Reconcile env r))))
   \<and> \<not> list_ex is_write (new_calls (r_client r) (r_client (snd (Reconcile env r))))
   \<and> c_envoyfilters (r_client (snd (Reconcile env r))) = c_envoyfilters (r_client r)
   \<and> c_policies (r_client (snd (Reconcile env r))) = c_policies (r_client r)"
proof -
  assume a: "policyToTranslationState env r = ((Some initState, None), policies, r1)
   \<and> Process env initState = Inl err"
  then have rec: "Reconcile env r = ((empty_Result, None), r1)"
    by (simp add: Reconcile_def)
  have r1: "r1 = snd (snd (policyToTranslationState env r))"
    using a by simp
  have g: "only_trace_grows (r_client r) (r_client r1)"
    "list_all is_builder_read (new_calls (r_client r) (r_client r1))"
    using policyToTranslationState_reads[of r env] by (simp_all add: r1)
  have "r_client r1 = (r_client r)\<lparr>c_calls := c_calls (r_client r) @ new_calls (r_client r) (r_client r1)\<rparr>"
    using g(1) by (rule only_trace_growsD)
  then have same: "c_envoyfilters (r_client r1) = c_envoyfilters (r_client r)"
    "c_policies (r_client r1) = c_policies (r_client r)"
    by (metis cluster.select_convs(4) cluster.surjective cluster.update_convs(7),
        metis cluster.select_convs(1) cluster.surjective cluster.update_convs(7))
  show ?thesis
    unfolding rec using g same is_builder_read_no_write by simp
qed

theorem process_error_ends_reconcile_witness:
  "fst (Reconcile demo_env (demo_reconciler demo_cluster)) = (empty_Result, None)
   \<and> c_calls (r_client (snd (Reconcile demo_env (demo_reconciler demo_cluster))))
       = [ListHTTPFilterPolicy, GetVirtualService demo_vs_key, GetGateway demo_gw_key]
   \<and> c_envoyfilters (r_client (snd (Reconcile demo_env (demo_reconciler demo_cluster)))) = []
   \<and> c_policies (r_client (snd (Reconcile demo_env (demo_reconciler demo_cluster)))) = [demo_policy]"
proof -
  let ?p = "policyToTranslationState demo_env (demo_reconciler demo_cluster)"
  have f: "fst ?p = (Some [(demo_policy, demo_vs, demo_gw)], None)"
    by (simp add: policyToTranslationState_def demo_defs vocabulary_defs step_defs client_defs
        strings_Contains_slash UpdateIndex_def)
  have c: "c_calls (r_client (snd (snd ?p)))
       = [ListHTTPFilterPolicy, GetVirtualService demo_vs_key, GetGateway demo_gw_key]"
    by (simp add: policyToTranslationState_def demo_defs vocabulary_defs step_defs client_defs
        strings_Contains_slash UpdateIndex_def)
  have h: "?p = ((Some [(demo_policy, demo_vs, demo_gw)], None), fst (snd ?p), snd (snd ?p))
           \<and> Process demo_env [(demo_policy, demo_vs, demo_gw)] = Inl ''translation failed''"
    using f by (simp add: prod_eq_iff demo_env_def)
  note t = process_error_ends_reconcile[OF h]
  have rec: "Reconcile demo_env (demo_reconciler demo_cluster) = ((empty_Result, None), snd (snd ?p))"
    using t by (rule conjunct1)
  have same: "c_envoyfilters (r_client (snd (Reconcile demo_env (demo_reconciler demo_cluster))))
                = c_envoyfilters (r_client (demo_reconciler demo_cluster))"
    "c_policies (r_client (snd (Reconcile demo_env (demo_reconciler demo_cluster))))
                = c_policies (r_client (demo_reconciler demo_cluster))"
    using t by blast+
  have "fst (Reconcile demo_env (demo_reconciler demo_cluster)) = (empty_Result, None)"
    by (simp add: rec)
  moreover have "c_calls (r_client (snd (Reconcile demo_env (demo_reconciler demo_cluster))))
       = [ListHTTPFilterPolicy, GetVirtualService demo_vs_key, GetGateway demo_gw_key]"
    by (simp add: rec c)
  moreover have "c_envoyfilters (r_client (snd (Reconcile demo_env (demo_reconciler demo_cluster)))) = []"
    unfolding same by (simp add: demo_reconciler_def demo_cluster_def)
  moreover have "c_policies (r_client (snd (Reconcile demo_env (demo_reconciler demo_cluster)))) = [demo_policy]"
    unfolding same by (simp add: demo_reconciler_def demo_cluster_def)
  ultimately show ?thesis by blast
qed

text \<open>
  C9. \<open>IstioGatewayIndexer.FindAffectedObjects\<close> returns exactly one request (the
  placeholder) when the changed Gateway's key is in the gateway index, however many
  policies are recorded under it, and none when the key is absent.
  \<open>VirtualServiceIndexer.FindAffectedObjects\<close> returns exactly one request when the
  list through the field index yields at least one policy, that is, when some policy
  targets a VirtualService of the changed object's name, and none when it yields no
  policy.
\<close>

theorem trigger_fan_in:
  "(r_istioGatewayIndex v (GetObjectKey (gw_Namespace gw) (gw_Name gw)) = Some policies \<longrightarrow>
      IstioGatewayIndexer_FindAffectedObjects v gw = reconcileReqPlaceholder
      \<and> length (IstioGatewayIndexer_FindAffectedObjects v gw) = 1)
   \<and> (r_istioGatewayIndex v (GetObjectKey (gw_Namespace gw) (gw_Name gw)) = None \<longrightarrow>
      IstioGatewayIndexer_FindAffectedObjects v gw = [])
   \<and> (fst (client_List_policies_by_field VirtualServiceIndexer_IndexName (nn_Name obj) reader)
         = Inr items \<longrightarrow>
      fst (VirtualServiceIndexer_FindAffectedObjects reader obj)
        = (if items = [] then [] else reconcileReqPlaceholder)
      \<and> length (fst (VirtualServiceIndexer_FindAffectedObjects reader obj))
        = (if items = [] then 0 else 1))
   \<and> (fault reader (ListHTTPFilterPolicyByField VirtualServiceIndexer_IndexName (nn_Name obj)) = None
       \<and> map_of (c_fieldIndexes reader) VirtualServiceIndexer_IndexName
           = Some VirtualServiceIndexer_Index \<longrightarrow>
      fst (VirtualServiceIndexer_FindAffectedObjects reader obj)
        = (if list_ex (\<lambda>p. targets_VirtualService p \<and> tr_Name (hfp_TargetRef p) = nn_Name obj)
                (c_policies reader)
           then reconcileReqPlaceholder else []))"
proof (intro conjI impI)
  assume "r_istioGatewayIndex v (GetObjectKey (gw_Namespace gw) (gw_Name gw)) = Some policies"
  then show "IstioGatewayIndexer_FindAffectedObjects v gw = reconcileReqPlaceholder"
    "length (IstioGatewayIndexer_FindAffectedObjects v gw) = 1"
    by (simp_all add: IstioGatewayIndexer_FindAffectedObjects_def triggerReconciliation_def
        reconcileReqPlaceholder_def)
next
  assume "r_istioGatewayIndex v (GetObjectKey (gw_Namespace gw) (gw_Name gw)) = None"
  then show "IstioGatewayIndexer_FindAffectedObjects v gw = []"
    by (simp add: IstioGatewayIndexer_FindAffectedObjects_def)
next
  assume a: "fst (client_List_policies_by_field VirtualServiceIndexer_IndexName (nn_Name obj) reader)
         = Inr items"
  have p: "client_List_policies_by_field VirtualServiceIndexer_IndexName (nn_Name obj) reader
         = (Inr items, snd (client_List_policies_by_field VirtualServiceIndexer_IndexName (nn_Name obj) reader))"
    using a by (simp add: prod_eq_iff)
  show "fst (VirtualServiceIndexer_FindAffectedObjects reader obj)
        = (if items = [] then [] else reconcileReqPlaceholder)"
    by (subst VirtualServiceIndexer_FindAffectedObjects_def, subst findAffectedObjects_def, subst p)
       (simp add: triggerReconciliation_def)
  then show "length (fst (VirtualServiceIndexer_FindAffectedObjects reader obj))
        = (if items = [] then 0 else 1)"
    by (simp add: reconcileReqPlaceholder_def)
next
  assume a: "fault reader (ListHTTPFilterPolicyByField VirtualServiceIndexer_IndexName (nn_Name obj)) = None
       \<and> map_of (c_fieldIndexes reader) VirtualServiceIndexer_IndexName
           = Some VirtualServiceIndexer_Index"
  have "(\<lambda>p. nn_Name obj \<in> set (VirtualServiceIndexer_Index p))
        = (\<lambda>p. targets_VirtualService p \<and> tr_Name (hfp_TargetRef p) = nn_Name obj)"
    by (auto simp: VirtualServiceIndexer_Index_def targets_VirtualService_def)
  then show "fst (VirtualServiceIndexer_FindAffectedObjects reader obj)
        = (if list_ex (\<lambda>p. targets_VirtualService p \<and> tr_Name (hfp_TargetRef p) = nn_Name obj)
                (c_policies reader)
           then reconcileReqPlaceholder else [])"
    using a
    by (simp add: VirtualServiceIndexer_FindAffectedObjects_def findAffectedObjects_def
        client_List_policies_by_field_def triggerReconciliation_def filter_empty_list_ex)
qed

theorem trigger_fan_in_witness:
  "IstioGatewayIndexer_FindAffectedObjects demo_reconciler_three demo_gw
     = [\<lparr>req_NamespacedName = \<lparr>nn_Namespace = [], nn_Name = ''httpfilterpolicies''\<rparr>\<rparr>]
   \<and> IstioGatewayIndexer_FindAffectedObjects demo_reconciler_three (demo_gw\<lparr>gw_Name := ''gw2''\<rparr>) = []
   \<and> fst (VirtualServiceIndexer_FindAffectedObjects demo_cluster_three demo_vs_key)
     = [\<lparr>req_NamespacedName = \<lparr>nn_Namespace = [], nn_Name = ''httpfilterpolicies''\<rparr>\<rparr>]
   \<and> fst (VirtualServiceIndexer_FindAffectedObjects demo_cluster_three demo_gw_key) = []"
proof -
  have h1: "r_istioGatewayIndex demo_reconciler_three
              (GetObjectKey (gw_Namespace demo_gw) (gw_Name demo_gw))
            = Some [demo_policy, demo_policy_section, demo_policy_other_ns]"
    by (simp add: demo_reconciler_three_def demo_gw_def)
  have h2: "r_istioGatewayIndex demo_reconciler_three
              (GetObjectKey (gw_Namespace (demo_gw\<lparr>gw_Name := ''gw2''\<rparr>))
                 (gw_Name (demo_gw\<lparr>gw_Name := ''gw2''\<rparr>)))
            = None"
    by (simp add: demo_reconciler_three_def demo_gw_def GetObjectKey_def)
  have h3: "fault demo_cluster_three
              (ListHTTPFilterPolicyByField VirtualServiceIndexer_IndexName (nn_Name demo_vs_key)) = None
            \<and> map_of (c_fieldIndexes demo_cluster_three) VirtualServiceIndexer_IndexName
                = Some VirtualServiceIndexer_Index"
    by (simp add: demo_defs fault_def)
  have h4: "fault demo_cluster_three
              (ListHTTPFilterPolicyByField VirtualServiceIndexer_IndexName (nn_Name demo_gw_key)) = None
            \<and> map_of (c_fieldIndexes demo_cluster_three) VirtualServiceIndexer_IndexName
                = Some VirtualServiceIndexer_Index"
    by (simp add: demo_defs fault_def)
  have l3: "list_ex (\<lambda>p. targets_VirtualService p \<and> tr_Name (hfp_TargetRef p) = nn_Name demo_vs_key)
              (c_policies demo_cluster_three)"
    by (simp add: demo_defs targets_VirtualService_def)
  have l4: "\<not> list_ex (\<lambda>p. targets_VirtualService p \<and> tr_Name (hfp_TargetRef p) = nn_Name demo_gw_key)
              (c_policies demo_cluster_three)"
    by (simp add: demo_defs targets_VirtualService_def)
  show ?thesis
    using trigger_fan_in[where v=demo_reconciler_three and gw=demo_gw
        and policies="[demo_policy, demo_policy_section, demo_policy_other_ns]"
        and reader=demo_cluster_three and obj=demo_vs_key]
      trigger_fan_in[where v=demo_reconciler_three and gw="demo_gw\<lparr>gw_Name := ''gw2''\<rparr>"
        and reader=demo_cluster_three and obj=demo_gw_key]
      h1 h2 h3 h4 l3 l4
    by (simp add: reconcileReqPlaceholder_def)
qed

text \<open>
  C10. When the list of the policies through the field index fails, for whatever
  reason, \<open>findAffectedObjects\<close> returns no request; its result has no error
  component, and the list is the only call it made.
\<close>

theorem list_failure_drops_event:
  "fst (client_List_policies_by_field idx (nn_Name obj) reader) = Inl err \<Longrightarrow>
   findAffectedObjects reader obj kind idx
     = ([], called (ListHTTPFilterPolicyByField idx (nn_Name obj)) reader)"
  by (simp add: findAffectedObjects_def client_List_policies_by_field_def
      split: sum.splits option.splits)

theorem list_failure_drops_event_witness:
  "fst (VirtualServiceIndexer_FindAffectedObjects demo_cluster_three demo_vs_key)
     = [\<lparr>req_NamespacedName = \<lparr>nn_Namespace = [], nn_Name = ''httpfilterpolicies''\<rparr>\<rparr>]
   \<and> findAffectedObjects demo_cluster_list_fault demo_vs_key ''VirtualService''
        VirtualServiceIndexer_IndexName
     = ([], demo_cluster_list_fault
              \<lparr>c_calls := [ListHTTPFilterPolicyByField VirtualServiceIndexer_IndexName ''vs'']\<rparr>)"
proof -
  have h: "fst (client_List_policies_by_field VirtualServiceIndexer_IndexName (nn_Name demo_vs_key)
                  demo_cluster_list_fault) = Inl (Failure ''timeout'')"
    by (simp add: demo_defs client_defs)
  have ok: "fst (VirtualServiceIndexer_FindAffectedObjects demo_cluster_three demo_vs_key)
     = [\<lparr>req_NamespacedName = \<lparr>nn_Namespace = [], nn_Name = ''httpfilterpolicies''\<rparr>\<rparr>]"
    by (simp add: demo_defs client_defs indexer_defs)
  show ?thesis
    using list_failure_drops_event[OF h, of "''VirtualService''"] ok
    by (simp add: called_def demo_defs)
qed

text \<open>
  C3, as stated, fails in three places. The second loop reads the existing object by
  namespace and name only: an EnvoyFilter without the ownership label that has the
  control-plane namespace and the name of a desired object is overwritten when its
  spec differs from the desired one, and is kept, still unlabeled, when the specs are
  equal, so that after a successful pass no labeled object stands for the desired one.
  And the first loop lists the labeled objects of every namespace and tests the name
  only: a labeled EnvoyFilter of another namespace that bears the name of a desired
  object is neither deleted nor updated, so that after a successful pass the labeled
  objects are the desired one and that stale one.
\<close>

theorem applier_overwrites_unlabeled_namesake:
  "\<not> labeled demo_ef_squat
   \<and> fst (translationStateToCustomResource demo_env demo_final_changed demo_squat_cluster) = None
   \<and> c_envoyfilters (snd (translationStateToCustomResource demo_env demo_final_changed demo_squat_cluster))
       = [\<lparr>ef_Name = ''htnn-h-example.com'', ef_Namespace = ''istio-system'',
           ef_Labels = owner_labels, ef_ResourceVersion = ''5'', ef_Spec = [''v2'']\<rparr>]
   \<and> demo_ef_squat
       \<notin> set (c_envoyfilters (snd (translationStateToCustomResource demo_env demo_final_changed demo_squat_cluster)))
   \<and> fst (translationStateToCustomResource demo_env demo_final_same demo_squat_cluster) = None
   \<and> labeled_names (snd (translationStateToCustomResource demo_env demo_final_same demo_squat_cluster)) = {}
   \<and> desired_names demo_final_same = {''htnn-h-example.com''}
   \<and> labeled_objects (snd (translationStateToCustomResource demo_env demo_final_same demo_squat_cluster)) = {}
   \<and> desired_objects demo_env demo_final_same = {(demo_root_key ''htnn-h-example.com'', [''v1''])}
   \<and> labeled demo_ef_elsewhere
   \<and> fst (translationStateToCustomResource demo_env demo_final_changed demo_elsewhere_cluster) = None
   \<and> c_envoyfilters (snd (translationStateToCustomResource demo_env demo_final_changed demo_elsewhere_cluster))
       = [demo_ef_elsewhere,
          \<lparr>ef_Name = ''htnn-h-example.com'', ef_Namespace = ''istio-system'',
           ef_Labels = owner_labels, ef_ResourceVersion = [], ef_Spec = [''v2'']\<rparr>]
   \<and> labeled_objects (snd (translationStateToCustomResource demo_env demo_final_changed demo_elsewhere_cluster))
       = {(\<lparr>nn_Namespace = ''default'', nn_Name = ''htnn-h-example.com''\<rparr>, [''old'']),
          (demo_root_key ''htnn-h-example.com'', [''v2''])}
   \<and> desired_objects demo_env demo_final_changed = {(demo_root_key ''htnn-h-example.com'', [''v2''])}"
  by (simp add: objects_defs demo_defs vocabulary_defs client_defs applier_defs Let_def)

text \<open>
  C3, amended. When \<open>translationStateToCustomResource\<close> succeeds, every stored
  EnvoyFilter that carries the ownership label and whose name is not a key of
  \<open>FinalState.EnvoyFilters\<close> is deleted (and, the final state being keyed by name,
  no object is left under its namespace and name). Whether it succeeds or not, every
  delete is of a stored, labeled object; the stored objects having distinct keys, an
  object without the label is never removed, and it is left exactly as it is unless it
  has the namespace and name under which a desired object is written. After a
  successful pass the labeled objects of the store are the desired objects, each
  under the control-plane namespace and its name with the desired spec, provided that
  no unlabeled object stood under the namespace and name of a desired object and that
  every labeled object bearing the name of a desired object stood in the control-plane
  namespace. The final state is a Go map keyed by the objects' names, and the store
  holds one object under a namespace and name.
\<close>

theorem applier_ownership:
  "(fst (translationStateToCustomResource env finalState cl) = None \<longrightarrow>
      (\<forall>e\<in>set (c_envoyfilters cl).
          labeled e \<and> map_of (fs_EnvoyFilters finalState) (ef_Name e) = None \<longrightarrow>
          DeleteEnvoyFilter (ef_key e)
            \<in> set (new_calls cl (snd (translationStateToCustomResource env finalState cl)))
          \<and> (keyed_by_name finalState \<longrightarrow>
               (\<forall>z\<in>set (c_envoyfilters (snd (translationStateToCustomResource env finalState cl))).
                  ef_key z \<noteq> ef_key e))))
   \<and> (\<forall>k. DeleteEnvoyFilter k
             \<in> set (new_calls cl (snd (translationStateToCustomResource env finalState cl))) \<longrightarrow>
         (\<exists>e\<in>set (c_envoyfilters cl). labeled e \<and> ef_key e = k))
   \<and> (distinct (map ef_key (c_envoyfilters cl)) \<longrightarrow>
        (\<forall>e\<in>set (c_envoyfilters cl). \<not> labeled e \<longrightarrow>
           (\<exists>e'\<in>set (c_envoyfilters (snd (translationStateToCustomResource env finalState cl))).
              ef_key e' = ef_key e)
           \<and> (ef_key e \<notin> set (desired_keys env finalState) \<longrightarrow>
                e \<in> set (c_envoyfilters (snd (translationStateToCustomResource env finalState cl))))))
   \<and> (fst (translationStateToCustomResource env finalState cl) = None
       \<and> keyed_by_name finalState
       \<and> distinct (map fst (fs_EnvoyFilters finalState))
       \<and> distinct (map ef_key (c_envoyfilters cl))
       \<and> (\<forall>e\<in>set (c_envoyfilters cl).
             ef_key e \<in> set (desired_keys env finalState) \<longrightarrow> labeled e)
       \<and> (\<forall>e\<in>set (c_envoyfilters cl).
             labeled e \<and> map_of (fs_EnvoyFilters finalState) (ef_Name e) \<noteq> None \<longrightarrow>
             ef_Namespace e = RootNamespace env) \<longrightarrow>
        labeled_objects (snd (translationStateToCustomResource env finalState cl))
          = desired_objects env finalState)"
proof (intro conjI)
  show "fst (translationStateToCustomResource env finalState cl) = None \<longrightarrow>
      (\<forall>e\<in>set (c_envoyfilters cl).
          labeled e \<and> map_of (fs_EnvoyFilters finalState) (ef_Name e) = None \<longrightarrow>
          DeleteEnvoyFilter (ef_key e)
            \<in> set (new_calls cl (snd (translationStateToCustomResource env finalState cl)))
          \<and> (keyed_by_name finalState \<longrightarrow>
               (\<forall>z\<in>set (c_envoyfilters (snd (translationStateToCustomResource env finalState cl))).
                  ef_key z \<noteq> ef_key e)))"
    using applier_prunes[of env finalState cl] by blast
  show "\<forall>k. DeleteEnvoyFilter k
             \<in> set (new_calls cl (snd (translationStateToCustomResource env finalState cl))) \<longrightarrow>
         (\<exists>e\<in>set (c_envoyfilters cl). labeled e \<and> ef_key e = k)"
    using applier_deletes_labeled[of cl env finalState] by blast
  show "distinct (map ef_key (c_envoyfilters cl)) \<longrightarrow>
        (\<forall>e\<in>set (c_envoyfilters cl). \<not> labeled e \<longrightarrow>
           (\<exists>e'\<in>set (c_envoyfilters (snd (translationStateToCustomResource env finalState cl))).
              ef_key e' = ef_key e)
           \<and> (ef_key e \<notin> set (desired_keys env finalState) \<longrightarrow>
                e \<in> set (c_envoyfilters (snd (translationStateToCustomResource env finalState cl)))))"
    using applier_keeps_unlabeled[of cl _ env finalState] by blast
  show "fst (translationStateToCustomResource env finalState cl) = None
       \<and> keyed_by_name finalState
       \<and> distinct (map fst (fs_EnvoyFilters finalState))
       \<and> distinct (map ef_key (c_envoyfilters cl))
       \<and> (\<forall>e\<in>set (c_envoyfilters cl).
             ef_key e \<in> set (desired_keys env finalState) \<longrightarrow> labeled e)
       \<and> (\<forall>e\<in>set (c_envoyfilters cl).
             labeled e \<and> map_of (fs_EnvoyFilters finalState) (ef_Name e) \<noteq> None \<longrightarrow>
             ef_Namespace e = RootNamespace env) \<longrightarrow>
        labeled_objects (snd (translationStateToCustomResource env finalState cl))
          = desired_objects env finalState"
  proof
    assume a: "fst (translationStateToCustomResource env finalState cl) = None
       \<and> keyed_by_name finalState
       \<and> distinct (map fst (fs_EnvoyFilters finalState))
       \<and> distinct (map ef_key (c_envoyfilters cl))
       \<and> (\<forall>e\<in>set (c_envoyfilters cl).
             ef_key e \<in> set (desired_keys env finalState) \<longrightarrow> labeled e)
       \<and> (\<forall>e\<in>set (c_envoyfilters cl).
             labeled e \<and> map_of (fs_EnvoyFilters finalState) (ef_Name e) \<noteq> None \<longrightarrow>
             ef_Namespace e = RootNamespace env)"
    from a show "labeled_objects (snd (translationStateToCustomResource env finalState cl))
          = desired_objects env finalState"
      by (elim conjE) (rule applier_objects; assumption)
  qed
qed

theorem applier_ownership_witness:
  "fst (translationStateToCustomResource demo_env demo_final demo_applier_cluster) = None
   \<and> DeleteEnvoyFilter (ef_key demo_ef_stale)
       \<in> set (new_calls demo_applier_cluster
                (snd (translationStateToCustomResource demo_env demo_final demo_applier_cluster)))
   \<and> ef_key demo_ef_stale
       \<notin> ef_key ` set (c_envoyfilters (snd (translationStateToCustomResource demo_env demo_final demo_applier_cluster)))
   \<and> demo_ef_user
       \<in> set (c_envoyfilters (snd (translationStateToCustomResource demo_env demo_final demo_applier_cluster)))
   \<and> labeled_objects (snd (translationStateToCustomResource demo_env demo_final demo_applier_cluster))
       = {(demo_root_key ''htnn-h-example.com'', [''v2'']),
          (demo_root_key ''htnn-h-new.example.com'', [''n''])}"
proof -
  let ?r = "translationStateToCustomResource demo_env demo_final demo_applier_cluster"
  have ok: "fst ?r = None"
    by (simp add: demo_defs vocabulary_defs client_defs applier_defs Let_def)
  have k: "keyed_by_name demo_final"
    by (simp add: demo_defs keyed_by_name_def)
  have dk: "distinct (map fst (fs_EnvoyFilters demo_final))"
    by (simp add: demo_defs)
  have dist: "distinct (map ef_key (c_envoyfilters demo_applier_cluster))"
    by (simp add: demo_defs ef_key_def)
  have j: "\<forall>e\<in>set (c_envoyfilters demo_applier_cluster).
             ef_key e \<in> set (desired_keys demo_env demo_final) \<longrightarrow> labeled e"
    by (simp add: demo_defs vocabulary_defs client_defs applier_defs)
  have ns: "\<forall>e\<in>set (c_envoyfilters demo_applier_cluster).
             labeled e \<and> map_of (fs_EnvoyFilters demo_final) (ef_Name e) \<noteq> None \<longrightarrow>
             ef_Namespace e = RootNamespace demo_env"
    by (simp add: demo_defs vocabulary_defs client_defs)
  have stale: "demo_ef_stale \<in> set (c_envoyfilters demo_applier_cluster)
               \<and> labeled demo_ef_stale
               \<and> map_of (fs_EnvoyFilters demo_final) (ef_Name demo_ef_stale) = None"
    by (simp add: demo_defs vocabulary_defs client_defs)
  have user: "demo_ef_user \<in> set (c_envoyfilters demo_applier_cluster)
              \<and> \<not> labeled demo_ef_user
              \<and> ef_key demo_ef_user \<notin> set (desired_keys demo_env demo_final)"
    by (simp add: demo_defs vocabulary_defs client_defs applier_defs)
  have objs: "desired_objects demo_env demo_final
                = {(demo_root_key ''htnn-h-example.com'', [''v2'']),
                   (demo_root_key ''htnn-h-new.example.com'', [''n''])}"
    by (simp add: demo_defs desired_objects_def applier_defs client_defs)
  note t = applier_ownership[of demo_env demo_final demo_applier_cluster]
  have a: "DeleteEnvoyFilter (ef_key demo_ef_stale) \<in> set (new_calls demo_applier_cluster (snd ?r))
           \<and> (\<forall>z\<in>set (c_envoyfilters (snd ?r)). ef_key z \<noteq> ef_key demo_ef_stale)"
    using t ok k stale by blast
  have b: "demo_ef_user \<in> set (c_envoyfilters (snd ?r))"
    using t dist user by blast
  have c: "labeled_objects (snd ?r) = desired_objects demo_env demo_final"
    using t ok k dk dist j ns by blast
  have a': "ef_key demo_ef_stale \<notin> ef_key ` set (c_envoyfilters (snd ?r))"
    using a by auto
  show ?thesis using ok a a' b c objs by simp
qed

text \<open>
  C4. A desired object is written with the control-plane namespace and the ownership
  label, under that namespace and its own name, with its spec untouched. When the read
  of that key succeeds: if no object is stored under it, the object is created; if one
  is stored with an equal spec, nothing but the read is done; if one is stored with a
  different spec, the object is updated carrying the stored object's resourceVersion.
  When the whole function succeeds, every object of \<open>FinalState.EnvoyFilters\<close> went
  through this step.
\<close>

theorem upsert_desired_object:
  "(ef_key (owned env desired) = \<lparr>nn_Namespace = RootNamespace env, nn_Name = ef_Name desired\<rparr>
    \<and> ef_Namespace (owned env desired) = RootNamespace env
    \<and> labeled (owned env desired)
    \<and> ef_Spec (owned env desired) = ef_Spec desired)
   \<and> (fault cl (GetEnvoyFilter (ef_key (owned env desired))) = None
       \<and> stored (ef_key (owned env desired)) cl = None \<longrightarrow>
        new_calls cl (snd (upsert_step env desired cl))
          = [GetEnvoyFilter (ef_key (owned env desired)), CreateEnvoyFilter (owned env desired)]
        \<and> (fault cl (CreateEnvoyFilter (owned env desired)) = None \<longrightarrow>
             fst (upsert_step env desired cl) = None
             \<and> c_envoyfilters (snd (upsert_step env desired cl))
                 = c_envoyfilters cl @ [owned env desired]))
   \<and> (fault cl (GetEnvoyFilter (ef_key (owned env desired))) = None
       \<and> stored (ef_key (owned env desired)) cl = Some existing
       \<and> ef_Spec existing = ef_Spec desired \<longrightarrow>
        upsert_step env desired cl
          = (None, called (GetEnvoyFilter (ef_key (owned env desired))) cl))
   \<and> (fault cl (GetEnvoyFilter (ef_key (owned env desired))) = None
       \<and> stored (ef_key (owned env desired)) cl = Some existing
       \<and> ef_Spec existing \<noteq> ef_Spec desired \<longrightarrow>
        new_calls cl (snd (upsert_step env desired cl))
          = [GetEnvoyFilter (ef_key (owned env desired)),
             UpdateEnvoyFilter
               ((owned env desired)\<lparr>ef_ResourceVersion := ef_ResourceVersion existing\<rparr>)]
        \<and> (fault cl (UpdateEnvoyFilter
                        ((owned env desired)\<lparr>ef_ResourceVersion := ef_ResourceVersion existing\<rparr>))
              = None \<longrightarrow>
             fst (upsert_step env desired cl) = None
             \<and> c_envoyfilters (snd (upsert_step env desired cl))
                 = map (\<lambda>e. if ef_key e = ef_key (owned env desired)
                             then (owned env desired)\<lparr>ef_ResourceVersion := ef_ResourceVersion existing\<rparr>
                             else e)
                     (c_envoyfilters cl)))
   \<and> (fst (translationStateToCustomResource env finalState cl) = None \<longrightarrow>
        (\<forall>d\<in>set (map snd (fs_EnvoyFilters finalState)).
           GetEnvoyFilter (ef_key (owned env d))
             \<in> set (new_calls cl (snd (translationStateToCustomResource env finalState cl)))))"
proof (intro conjI)
  show "ef_key (owned env desired) = \<lparr>nn_Namespace = RootNamespace env, nn_Name = ef_Name desired\<rparr>"
    by (simp add: ef_key_def owned_fields)
  show "ef_Namespace (owned env desired) = RootNamespace env" "labeled (owned env desired)"
    "ef_Spec (owned env desired) = ef_Spec desired"
    by (simp_all add: owned_fields)
  show "fault cl (GetEnvoyFilter (ef_key (owned env desired))) = None
       \<and> stored (ef_key (owned env desired)) cl = None \<longrightarrow>
        new_calls cl (snd (upsert_step env desired cl))
          = [GetEnvoyFilter (ef_key (owned env desired)), CreateEnvoyFilter (owned env desired)]
        \<and> (fault cl (CreateEnvoyFilter (owned env desired)) = None \<longrightarrow>
             fst (upsert_step env desired cl) = None
             \<and> c_envoyfilters (snd (upsert_step env desired cl))
                 = c_envoyfilters cl @ [owned env desired])"
    by (simp add: upsert_step_def Let_def client_Get_EnvoyFilter_def client_Create_EnvoyFilter_def
        called_def new_calls_def fault_calls stored_calls split: option.splits)
  show "fault cl (GetEnvoyFilter (ef_key (owned env desired))) = None
       \<and> stored (ef_key (owned env desired)) cl = Some existing
       \<and> ef_Spec existing = ef_Spec desired \<longrightarrow>
        upsert_step env desired cl
          = (None, called (GetEnvoyFilter (ef_key (owned env desired))) cl)"
    by (simp add: upsert_step_def Let_def client_Get_EnvoyFilter_def owned_fields)
  show "fault cl (GetEnvoyFilter (ef_key (owned env desired))) = None
       \<and> stored (ef_key (owned env desired)) cl = Some existing
       \<and> ef_Spec existing \<noteq> ef_Spec desired \<longrightarrow>
        new_calls cl (snd (upsert_step env desired cl))
          = [GetEnvoyFilter (ef_key (owned env desired)),
             UpdateEnvoyFilter
               ((owned env desired)\<lparr>ef_ResourceVersion := ef_ResourceVersion existing\<rparr>)]
        \<and> (fault cl (UpdateEnvoyFilter
                        ((owned env desired)\<lparr>ef_ResourceVersion := ef_ResourceVersion existing\<rparr>))
              = None \<longrightarrow>
             fst (upsert_step env desired cl) = None
             \<and> c_envoyfilters (snd (upsert_step env desired cl))
                 = map (\<lambda>e. if ef_key e = ef_key (owned env desired)
                             then (owned env desired)\<lparr>ef_ResourceVersion := ef_ResourceVersion existing\<rparr>
                             else e)
                     (c_envoyfilters cl))"
    by (simp add: upsert_step_def Let_def client_Get_EnvoyFilter_def client_Update_EnvoyFilter_def
        called_def new_calls_def fault_calls stored_calls ef_key_rv owned_fields
        split: option.splits)
  show "fst (translationStateToCustomResource env finalState cl) = None \<longrightarrow>
        (\<forall>d\<in>set (map snd (fs_EnvoyFilters finalState)).
           GetEnvoyFilter (ef_key (owned env d))
             \<in> set (new_calls cl (snd (translationStateToCustomResource env finalState cl))))"
    using applier_visits[of env finalState cl] by blast
qed


theorem upsert_desired_object_witness:
  "translationStateToCustomResource demo_env demo_final demo_applier_cluster =
     (None, demo_applier_cluster
        \<lparr>c_envoyfilters :=
           [demo_ef_user,
            \<lparr>ef_Name = ''htnn-h-example.com'', ef_Namespace = ''istio-system'',
             ef_Labels = owner_labels, ef_ResourceVersion = ''9'', ef_Spec = [''v2'']\<rparr>,
            \<lparr>ef_Name = ''htnn-h-new.example.com'', ef_Namespace = ''istio-system'',
             ef_Labels = owner_labels, ef_ResourceVersion = [], ef_Spec = [''n'']\<rparr>],
         c_calls :=
           [ListEnvoyFilterByLabel LabelCreatedBy ''HTTPFilterPolicy'',
            DeleteEnvoyFilter \<lparr>nn_Namespace = ''istio-system'', nn_Name = ''htnn-h-old.example.com''\<rparr>,
            GetEnvoyFilter \<lparr>nn_Namespace = ''istio-system'', nn_Name = ''htnn-h-example.com''\<rparr>,
            UpdateEnvoyFilter
              \<lparr>ef_Name = ''htnn-h-example.com'', ef_Namespace = ''istio-system'',
               ef_Labels = owner_labels, ef_ResourceVersion = ''9'', ef_Spec = [''v2'']\<rparr>,
            GetEnvoyFilter \<lparr>nn_Namespace = ''istio-system'', nn_Name = ''htnn-h-new.example.com''\<rparr>,
            CreateEnvoyFilter
              \<lparr>ef_Name = ''htnn-h-new.example.com'', ef_Namespace = ''istio-system'',
               ef_Labels = owner_labels, ef_ResourceVersion = [], ef_Spec = [''n'']\<rparr>]\<rparr>)
   \<and> upsert_step demo_env (demo_desired ''htnn-h-example.com'' [''v1'']) demo_applier_cluster
       = (None, demo_applier_cluster
                  \<lparr>c_calls := [GetEnvoyFilter \<lparr>nn_Namespace = ''istio-system'',
                                                 nn_Name = ''htnn-h-example.com''\<rparr>]\<rparr>)
   \<and> new_calls demo_applier_cluster
        (snd (upsert_step demo_env (demo_desired ''htnn-h-example.com'' [''v2'']) demo_applier_cluster))
       = [GetEnvoyFilter \<lparr>nn_Namespace = ''istio-system'', nn_Name = ''htnn-h-example.com''\<rparr>,
          UpdateEnvoyFilter
            \<lparr>ef_Name = ''htnn-h-example.com'', ef_Namespace = ''istio-system'',
             ef_Labels = owner_labels, ef_ResourceVersion = ''9'', ef_Spec = [''v2'']\<rparr>]
   \<and> new_calls demo_applier_cluster
        (snd (upsert_step demo_env (demo_desired ''htnn-h-new.example.com'' [''n'']) demo_applier_cluster))
       = [GetEnvoyFilter \<lparr>nn_Namespace = ''istio-system'', nn_Name = ''htnn-h-new.example.com''\<rparr>,
          CreateEnvoyFilter
            \<lparr>ef_Name = ''htnn-h-new.example.com'', ef_Namespace = ''istio-system'',
             ef_Labels = owner_labels, ef_ResourceVersion = [], ef_Spec = [''n'']\<rparr>]
   \<and> GetEnvoyFilter \<lparr>nn_Namespace = ''istio-system'', nn_Name = ''htnn-h-new.example.com''\<rparr>
       \<in> set (new_calls demo_applier_cluster
               (snd (translationStateToCustomResource demo_env demo_final demo_applier_cluster)))
   \<and> c_envoyfilters
        (snd (upsert_step demo_env (demo_desired ''htnn-h-example.com'' [''v2'']) demo_applier_cluster))
       = [demo_ef_stale, demo_ef_user,
          \<lparr>ef_Name = ''htnn-h-example.com'', ef_Namespace = ''istio-system'',
           ef_Labels = owner_labels, ef_ResourceVersion = ''9'', ef_Spec = [''v2'']\<rparr>]
   \<and> c_envoyfilters
        (snd (upsert_step demo_env (demo_desired ''htnn-h-new.example.com'' [''n'']) demo_applier_cluster))
       = [demo_ef_stale, demo_ef_user, demo_ef_current,
          \<lparr>ef_Name = ''htnn-h-new.example.com'', ef_Namespace = ''istio-system'',
           ef_Labels = owner_labels, ef_ResourceVersion = [], ef_Spec = [''n'']\<rparr>]"
proof -
  let ?same = "demo_desired ''htnn-h-example.com'' [''v1'']"
  let ?changed = "demo_desired ''htnn-h-example.com'' [''v2'']"
  let ?new = "demo_desired ''htnn-h-new.example.com'' [''n'']"
  have whole: "translationStateToCustomResource demo_env demo_final demo_applier_cluster =
     (None, demo_applier_cluster
        \<lparr>c_envoyfilters :=
           [demo_ef_user,
            \<lparr>ef_Name = ''htnn-h-example.com'', ef_Namespace = ''istio-system'',
             ef_Labels = owner_labels, ef_ResourceVersion = ''9'', ef_Spec = [''v2'']\<rparr>,
            \<lparr>ef_Name = ''htnn-h-new.example.com'', ef_Namespace = ''istio-system'',
             ef_Labels = owner_labels, ef_ResourceVersion = [], ef_Spec = [''n'']\<rparr>],
         c_calls :=
           [ListEnvoyFilterByLabel LabelCreatedBy ''HTTPFilterPolicy'',
            DeleteEnvoyFilter \<lparr>nn_Namespace = ''istio-system'', nn_Name = ''htnn-h-old.example.com''\<rparr>,
            GetEnvoyFilter \<lparr>nn_Namespace = ''istio-system'', nn_Name = ''htnn-h-example.com''\<rparr>,
            UpdateEnvoyFilter
              \<lparr>ef_Name = ''htnn-h-example.com'', ef_Namespace = ''istio-system'',
               ef_Labels = owner_labels, ef_ResourceVersion = ''9'', ef_Spec = [''v2'']\<rparr>,
            GetEnvoyFilter \<lparr>nn_Namespace = ''istio-system'', nn_Name = ''htnn-h-new.example.com''\<rparr>,
            CreateEnvoyFilter
              \<lparr>ef_Name = ''htnn-h-new.example.com'', ef_Namespace = ''istio-system'',
               ef_Labels = owner_labels, ef_ResourceVersion = [], ef_Spec = [''n'']\<rparr>]\<rparr>)"
    by (simp add: demo_defs vocabulary_defs client_defs applier_defs Let_def)
  have k1: "ef_key (owned demo_env ?same)
              = \<lparr>nn_Namespace = ''istio-system'', nn_Name = ''htnn-h-example.com''\<rparr>"
    and k2: "ef_key (owned demo_env ?new)
              = \<lparr>nn_Namespace = ''istio-system'', nn_Name = ''htnn-h-new.example.com''\<rparr>"
    and k3: "ef_key (owned demo_env ?changed)
              = \<lparr>nn_Namespace = ''istio-system'', nn_Name = ''htnn-h-example.com''\<rparr>"
    by (simp_all add: demo_defs ef_key_def owned_def)
  have h_same: "fault demo_applier_cluster (GetEnvoyFilter (ef_key (owned demo_env ?same))) = None
       \<and> stored (ef_key (owned demo_env ?same)) demo_applier_cluster = Some demo_ef_current
       \<and> ef_Spec demo_ef_current = ef_Spec ?same"
    by (simp add: demo_defs client_defs applier_defs)
  have h_changed: "fault demo_applier_cluster (GetEnvoyFilter (ef_key (owned demo_env ?changed))) = None
       \<and> stored (ef_key (owned demo_env ?changed)) demo_applier_cluster = Some demo_ef_current
       \<and> ef_Spec demo_ef_current \<noteq> ef_Spec ?changed"
    by (simp add: demo_defs client_defs applier_defs)
  have h_new: "fault demo_applier_cluster (GetEnvoyFilter (ef_key (owned demo_env ?new))) = None
       \<and> stored (ef_key (owned demo_env ?new)) demo_applier_cluster = None"
    by (simp add: demo_defs client_defs applier_defs)
  have ok: "fst (translationStateToCustomResource demo_env demo_final demo_applier_cluster) = None"
    by (simp add: whole)
  have d: "?new \<in> set (map snd (fs_EnvoyFilters demo_final))"
    by (simp add: demo_final_def)
  have o1: "owned demo_env ?changed\<lparr>ef_ResourceVersion := ef_ResourceVersion demo_ef_current\<rparr>
             = \<lparr>ef_Name = ''htnn-h-example.com'', ef_Namespace = ''istio-system'',
                ef_Labels = owner_labels, ef_ResourceVersion = ''9'', ef_Spec = [''v2'']\<rparr>"
    and o2: "owned demo_env ?new
             = \<lparr>ef_Name = ''htnn-h-new.example.com'', ef_Namespace = ''istio-system'',
                ef_Labels = owner_labels, ef_ResourceVersion = [], ef_Spec = [''n'']\<rparr>"
    by (simp_all add: demo_defs owned_def)
  note t_same = upsert_desired_object[where env=demo_env and desired="?same"
      and cl=demo_applier_cluster and existing=demo_ef_current]
  note t_changed = upsert_desired_object[where env=demo_env and desired="?changed"
      and cl=demo_applier_cluster and existing=demo_ef_current]
  note t_new = upsert_desired_object[where env=demo_env and desired="?new"
      and cl=demo_applier_cluster and finalState=demo_final]
  have a: "upsert_step demo_env ?same demo_applier_cluster
       = (None, called (GetEnvoyFilter (ef_key (owned demo_env ?same))) demo_applier_cluster)"
    using t_same h_same by blast
  have b: "new_calls demo_applier_cluster (snd (upsert_step demo_env ?changed demo_applier_cluster))
       = [GetEnvoyFilter (ef_key (owned demo_env ?changed)),
          UpdateEnvoyFilter (owned demo_env ?changed\<lparr>ef_ResourceVersion := ef_ResourceVersion demo_ef_current\<rparr>)]"
    using t_changed h_changed by blast
  have c: "new_calls demo_applier_cluster (snd (upsert_step demo_env ?new demo_applier_cluster))
       = [GetEnvoyFilter (ef_key (owned demo_env ?new)), CreateEnvoyFilter (owned demo_env ?new)]"
    using t_new h_new by blast
  have e: "GetEnvoyFilter (ef_key (owned demo_env ?new))
       \<in> set (new_calls demo_applier_cluster
               (snd (translationStateToCustomResource demo_env demo_final demo_applier_cluster)))"
    using t_new ok d by blast
  have a': "upsert_step demo_env ?same demo_applier_cluster
       = (None, demo_applier_cluster
                  \<lparr>c_calls := [GetEnvoyFilter \<lparr>nn_Namespace = ''istio-system'',
                                                 nn_Name = ''htnn-h-example.com''\<rparr>]\<rparr>)"
    unfolding a k1 by (simp add: called_def demo_applier_cluster_def demo_cluster_def)
  note b' = b[unfolded k3, unfolded o1]
  note c' = c[unfolded k2, unfolded o2]
  note e' = e[unfolded k2]
  have nf: "fault demo_applier_cluster
              (UpdateEnvoyFilter (owned demo_env ?changed\<lparr>ef_ResourceVersion := ef_ResourceVersion demo_ef_current\<rparr>))
              = None"
    "fault demo_applier_cluster (CreateEnvoyFilter (owned demo_env ?new)) = None"
    by (simp_all add: demo_defs fault_def)
  have f: "c_envoyfilters (snd (upsert_step demo_env ?changed demo_applier_cluster))
       = map (\<lambda>e. if ef_key e = ef_key (owned demo_env ?changed)
                   then owned demo_env ?changed\<lparr>ef_ResourceVersion := ef_ResourceVersion demo_ef_current\<rparr>
                   else e)
           (c_envoyfilters demo_applier_cluster)"
    using t_changed h_changed nf(1) by blast
  have f': "c_envoyfilters (snd (upsert_step demo_env ?changed demo_applier_cluster))
       = [demo_ef_stale, demo_ef_user,
          \<lparr>ef_Name = ''htnn-h-example.com'', ef_Namespace = ''istio-system'',
           ef_Labels = owner_labels, ef_ResourceVersion = ''9'', ef_Spec = [''v2'']\<rparr>]"
    unfolding f k3 o1
    by (simp add: demo_applier_cluster_def demo_ef_stale_def demo_ef_user_def demo_ef_current_def
        ef_key_def)
  have g: "c_envoyfilters (snd (upsert_step demo_env ?new demo_applier_cluster))
       = c_envoyfilters demo_applier_cluster @ [owned demo_env ?new]"
    using t_new h_new nf(2) by blast
  have g': "c_envoyfilters (snd (upsert_step demo_env ?new demo_applier_cluster))
       = [demo_ef_stale, demo_ef_user, demo_ef_current,
          \<lparr>ef_Name = ''htnn-h-new.example.com'', ef_Namespace = ''istio-system'',
           ef_Labels = owner_labels, ef_ResourceVersion = [], ef_Spec = [''n'']\<rparr>]"
    unfolding g o2 by (simp add: demo_applier_cluster_def)
  show ?thesis
    by (intro conjI) (fact whole a' b' c' e' f' g')+
qed

end
